theory Spec2Isabelle
  imports Main "HOL-Library.Sublist" "HOL-Library.Word"
begin

section \<open>Byte strings\<close>

text \<open>
  A \<open>std::string\<close> is a list of bytes. \<open>str_find s pat pos\<close> is
  \<open>s.find(pat, pos)\<close>: the index of the first occurrence of \<open>pat\<close> at or after
  \<open>pos\<close>, and \<open>None\<close> for \<open>npos\<close>. \<open>substr s pos n\<close> is \<open>s.substr(pos, n)\<close>; the
  client calls it only with \<open>pos\<close> at most the index of a byte that \<open>find\<close> has just
  located, so the \<open>out_of_range\<close> exception of a position past the end cannot arise
  there.
\<close>

primrec find_first :: "string \<Rightarrow> string \<Rightarrow> nat option" where
  "find_first pat [] = (if pat = [] then Some 0 else None)"
| "find_first pat (x # xs) =
     (if prefix pat (x # xs) then Some 0 else map_option Suc (find_first pat xs))"

definition str_find :: "string \<Rightarrow> string \<Rightarrow> nat \<Rightarrow> nat option" where
  "str_find s pat pos =
     (if pos \<le> length s then map_option (\<lambda>i. i + pos) (find_first pat (drop pos s)) else None)"

definition substr :: "string \<Rightarrow> nat \<Rightarrow> nat \<Rightarrow> string" where
  "substr s pos n = take n (drop pos s)"

abbreviation dquote :: char where
  "dquote \<equiv> CHR 0x22"

section \<open>Percent-encoding\<close>

text \<open>
  Modelled from the spec: \<open>curl_easy_escape\<close> belongs to libcurl, which is not among
  the sources. Section 4.1 of the specification fixes what it computes: every byte that
  is an ASCII letter, a digit or one of \<open>-_.~\<close> is copied, every other byte becomes
  \<open>%XX\<close> with two upper-case hexadecimal digits.
\<close>

definition is_unreserved :: "char \<Rightarrow> bool" where
  "is_unreserved c =
     (let n = (of_char c :: nat) in
        (48 \<le> n \<and> n \<le> 57) \<or> (65 \<le> n \<and> n \<le> 90) \<or> (97 \<le> n \<and> n \<le> 122) \<or>
        n = 45 \<or> n = 46 \<or> n = 95 \<or> n = 126)"

definition hex_digit :: "nat \<Rightarrow> char" where
  "hex_digit n = (if n < 10 then char_of (48 + n) else char_of (55 + n))"

definition escape_char :: "char \<Rightarrow> string" where
  "escape_char c =
     (if is_unreserved c then [c]
      else [CHR ''%'', hex_digit ((of_char c :: nat) div 16),
            hex_digit ((of_char c :: nat) mod 16)])"

definition percent_encode :: "string \<Rightarrow> string" where
  "percent_encode s = concat (map escape_char s)"

text \<open>
  The decoder of the round-trip property. The client never decodes a parameter string,
  so this side follows the specification's words (section 8: decoding the encoded query
  string reproduces the pairs): the string is cut at every \<open>&\<close>, each piece at its
  first \<open>=\<close>, and the value is percent-decoded. The key is taken as it stands, since
  the encoder never escapes keys.
\<close>

definition hex_value :: "char \<Rightarrow> nat option" where
  "hex_value c =
     (let n = (of_char c :: nat) in
        if 48 \<le> n \<and> n \<le> 57 then Some (n - 48)
        else if 65 \<le> n \<and> n \<le> 70 then Some (n - 55)
        else if 97 \<le> n \<and> n \<le> 102 then Some (n - 87)
        else None)"

fun percent_decode :: "string \<Rightarrow> string" where
  "percent_decode [] = []"
| "percent_decode (c # cs) =
     (if c = CHR ''%'' then
        (case cs of
           h1 # h2 # rest \<Rightarrow>
             (case (hex_value h1, hex_value h2) of
                (Some a, Some b) \<Rightarrow> char_of (16 * a + b) # percent_decode rest
              | _ \<Rightarrow> c # percent_decode cs)
         | _ \<Rightarrow> c # percent_decode cs)
      else c # percent_decode cs)"

primrec split_on :: "char \<Rightarrow> string \<Rightarrow> string list" where
  "split_on d [] = [[]]"
| "split_on d (c # cs) =
     (if c = d then [] # split_on d cs
      else (case split_on d cs of [] \<Rightarrow> [[c]] | p # ps \<Rightarrow> (c # p) # ps))"

definition spec_decode_pair :: "string \<Rightarrow> string \<times> string" where
  "spec_decode_pair s =
     (takeWhile (\<lambda>c. c \<noteq> CHR ''='') s,
      percent_decode (drop 1 (dropWhile (\<lambda>c. c \<noteq> CHR ''='') s)))"

definition spec_decode_params :: "string \<Rightarrow> (string \<times> string) list" where
  "spec_decode_params s = (if s = [] then [] else map spec_decode_pair (split_on CHR ''&'' s))"

section \<open>JSON documents\<close>

text \<open>
  Modelled from the spec: rapidjson is not among the sources. A document is a JSON
  value; an object keeps its members in order and a lookup returns the first member of
  that name. \<open>HasMember\<close> and \<open>operator[]\<close> require an object, \<open>operator[]\<close> requires the
  member to be there, and \<open>GetString\<close> requires a string: the library asserts these
  preconditions, and section 4.4 of the specification calls a missing expected field a
  fatal precondition violation. The model returns \<open>RapidjsonAssert\<close> where one fails.
  The text parser is a parameter \<open>P\<close> of the model (\<open>None\<close> for a text that is not
  JSON); \<open>Document::Parse\<close> replaces the document's value only when parsing succeeds.
\<close>

datatype json =
    JNull
  | JBool bool
  | JNumber int
  | JString string
  | JArray "json list"
  | JObject "(string \<times> json) list"

datatype error =
    Fatal string
  | InvalidTokenException
  | RapidjsonAssert

definition Parse :: "(string \<Rightarrow> json option) \<Rightarrow> json \<Rightarrow> string \<Rightarrow> json" where
  "Parse P doc s = (case P s of None \<Rightarrow> doc | Some j \<Rightarrow> j)"

definition IsObject :: "json \<Rightarrow> bool" where
  "IsObject j = (case j of JObject ms \<Rightarrow> True | _ \<Rightarrow> False)"

definition IsString :: "json \<Rightarrow> bool" where
  "IsString j = (case j of JString s \<Rightarrow> True | _ \<Rightarrow> False)"

definition HasMember :: "json \<Rightarrow> string \<Rightarrow> error + bool" where
  "HasMember j name =
     (case j of JObject ms \<Rightarrow> Inr (map_of ms name \<noteq> None) | _ \<Rightarrow> Inl RapidjsonAssert)"

definition Member :: "json \<Rightarrow> string \<Rightarrow> error + json" where
  "Member j name =
     (case j of
        JObject ms \<Rightarrow> (case map_of ms name of Some v \<Rightarrow> Inr v | None \<Rightarrow> Inl RapidjsonAssert)
      | _ \<Rightarrow> Inl RapidjsonAssert)"

definition GetString :: "json \<Rightarrow> error + string" where
  "GetString j = (case j of JString s \<Rightarrow> Inr s | _ \<Rightarrow> Inl RapidjsonAssert)"

definition MemberString :: "json \<Rightarrow> string \<Rightarrow> error + string" where
  "MemberString j name = (case Member j name of Inl e \<Rightarrow> Inl e | Inr v \<Rightarrow> GetString v)"

text \<open>
  Modelled from the spec: \<open>err_assert\<close> is declared in \<open>logger.h\<close>, which is not among
  the sources. By sections 4.2 and 7 of the specification a failed check is fatal and
  aborts the call with an error of its own, here \<open>Fatal\<close> with the message; \<open>None\<close>
  says that the check passed.
\<close>

definition err_assert :: "bool \<Rightarrow> string \<Rightarrow> error option" where
  "err_assert ok msg = (if ok then None else Some (Fatal msg))"

section \<open>The world outside the client\<close>

text \<open>
  Everything the client reaches through libcurl, the clock, the allocator and the file
  system is one explicit state. \<open>transfers\<close> scripts the outcome of each successive
  \<open>curl_easy_perform\<close>: the header lines and body chunks handed to the callbacks, the
  status code, the time the transfer takes and, for a transport failure, the message of
  its \<open>CURLcode\<close>; with the script exhausted the connection is refused. \<open>net_log\<close>
  records every request handed to \<open>curl_easy_perform\<close>, with the time it was sent.
  \<open>clock\<close> is the time in nanoseconds since the epoch of the steady clock, and
  \<open>steady_clock_now\<close> reads it as a \<open>time_point\<close> does, in the signed 64-bit count of
  its duration. \<open>bufs\<close> are the live buffers
  returned by \<open>curl_easy_escape\<close>, named by allocation number, and \<open>freed\<close> lists every
  \<open>curl_free\<close> of one. \<open>files\<close> is the file system and \<open>can_open\<close> says which paths an
  \<open>ofstream\<close> can open for writing. Writes reach the file at once (the stream's buffer
  is not modelled).
\<close>

datatype HttpMethod = GET | POST

record transfer =
  curl_error :: "string option"
  status :: int
  header_lines :: "string list"
  body_chunks :: "string list"
  elapsed :: nat

record http_request =
  req_method :: HttpMethod
  req_url :: string
  req_postfields :: "string option"
  req_time :: nat

record world =
  transfers :: "transfer list"
  net_log :: "http_request list"
  clock :: nat
  easy_init_ok :: bool
  bufs :: "nat \<Rightarrow> string option"
  next_buf :: nat
  freed :: "nat list"
  files :: "string \<Rightarrow> string option"
  can_open :: "string \<Rightarrow> bool"

definition steady_clock_now :: "world \<Rightarrow> 64 word" where
  "steady_clock_now w = word_of_nat (clock w)"

definition sleep_for :: "nat \<Rightarrow> world \<Rightarrow> world" where
  "sleep_for d w = w\<lparr>clock := clock w + d\<rparr>"

definition curl_easy_escape :: "string \<Rightarrow> world \<Rightarrow> nat \<times> world" where
  "curl_easy_escape s w =
     (next_buf w,
      w\<lparr>bufs := (bufs w)(next_buf w := Some (percent_encode s)), next_buf := Suc (next_buf w)\<rparr>)"

definition buffer_text :: "world \<Rightarrow> nat option \<Rightarrow> string" where
  "buffer_text w p =
     (case p of None \<Rightarrow> [] | Some a \<Rightarrow> (case bufs w a of None \<Rightarrow> [] | Some s \<Rightarrow> s))"

definition curl_free :: "nat option \<Rightarrow> world \<Rightarrow> world" where
  "curl_free p w =
     (case p of
        None \<Rightarrow> w
      | Some a \<Rightarrow> w\<lparr>bufs := (bufs w)(a := None), freed := freed w @ [a]\<rparr>)"

subsection \<open>Output file streams\<close>

record ofstream =
  f_open :: bool
  f_path :: string
  f_fail :: bool

definition closed_ofstream :: ofstream where
  "closed_ofstream = \<lparr>f_open = False, f_path = [], f_fail = False\<rparr>"

definition ofstream_open :: "ofstream \<Rightarrow> string \<Rightarrow> world \<Rightarrow> ofstream \<times> world" where
  "ofstream_open f path w =
     (if f_open f then (f\<lparr>f_fail := True\<rparr>, w)
      else if can_open w path
        then (f\<lparr>f_open := True, f_path := path, f_fail := False\<rparr>,
              w\<lparr>files := (files w)(path := Some [])\<rparr>)
      else (f\<lparr>f_fail := True\<rparr>, w))"

definition ofstream_write :: "ofstream \<Rightarrow> string \<Rightarrow> world \<Rightarrow> ofstream \<times> world" where
  "ofstream_write f data w =
     (if f_open f \<and> \<not> f_fail f
        then (f, w\<lparr>files := (files w)(f_path f :=
                Some ((case files w (f_path f) of None \<Rightarrow> [] | Some old \<Rightarrow> old) @ data))\<rparr>)
      else (f\<lparr>f_fail := True\<rparr>, w))"

definition ofstream_close :: "ofstream \<Rightarrow> ofstream" where
  "ofstream_close f = (if f_open f then f\<lparr>f_open := False\<rparr> else f\<lparr>f_fail := True\<rparr>)"

section \<open>Request state and request parameters\<close>

text \<open>
  \<open>response_code\<close> is not initialised by either constructor of \<open>request_state\<close>; it is
  \<open>None\<close> until \<open>raw_request\<close> stores the status. \<open>escaped_value\<close> is the \<open>char *\<close> of
  a parameter: \<open>None\<close> for \<open>nullptr\<close>, otherwise the allocation it points to.
\<close>

record request_state =
  is_download :: bool
  suggested_filename :: string
  download_dir :: string
  string_output :: string
  file_output :: ofstream
  response_code :: "int option"

definition new_request_state :: request_state where
  "new_request_state =
     \<lparr>is_download = False, suggested_filename = [], download_dir = [], string_output = [],
      file_output = closed_ofstream, response_code = None\<rparr>"

definition new_download_state :: "string \<Rightarrow> string \<Rightarrow> request_state" where
  "new_download_state dir name_hint =
     \<lparr>is_download = False, suggested_filename = name_hint, download_dir = dir,
      string_output = [], file_output = closed_ofstream, response_code = None\<rparr>"

definition reset :: "request_state \<Rightarrow> request_state" where
  "reset rstate = rstate\<lparr>is_download := False, string_output := []\<rparr>"

definition consider_download :: "request_state \<Rightarrow> bool" where
  "consider_download rstate = (length (download_dir rstate) > 0)"

record request_param =
  key :: string
  val :: string
  escaped_value :: "nat option"

definition param :: "string \<Rightarrow> string \<Rightarrow> request_param" where
  "param k v = \<lparr>key = k, val = v, escaped_value = None\<rparr>"

section \<open>The libcurl callbacks\<close>

text \<open>
  libcurl calls both callbacks with a data pointer that is never null, so the early
  \<open>return 0\<close> of either is not a branch of the model.
\<close>

definition header_callback :: "string \<Rightarrow> request_state \<Rightarrow> world \<Rightarrow> request_state \<times> world" where
  "header_callback header_str rstate w =
     (if consider_download rstate then
        (case str_find header_str ''Content-Disposition:'' 0 of
           None \<Rightarrow> (rstate, w)
         | Some found \<Rightarrow>
             (let r1 = rstate\<lparr>is_download := True\<rparr>;
                  r2 = (case str_find header_str ''filename='' 0 of
                          None \<Rightarrow> r1
                        | Some name_start0 \<Rightarrow>
                            (let name_start = name_start0 + 10 in
                               (case str_find header_str [dquote] name_start of
                                  None \<Rightarrow> r1
                                | Some name_end \<Rightarrow>
                                    r1\<lparr>suggested_filename :=
                                         substr header_str name_start (name_end - name_start)\<rparr>)));
                  full_filename = download_dir r2 @ ''/'' @ suggested_filename r2
              in (case ofstream_open (file_output r2) full_filename w of
                    (f, w1) \<Rightarrow> (r2\<lparr>file_output := f\<rparr>, w1))))
      else (rstate, w))"

definition write_callback :: "string \<Rightarrow> request_state \<Rightarrow> world \<Rightarrow> request_state \<times> world" where
  "write_callback data rstate w =
     (if is_download rstate then
        (case ofstream_write (file_output rstate) data w of
           (f, w1) \<Rightarrow> (rstate\<lparr>file_output := f\<rparr>, w1))
      else (rstate\<lparr>string_output := string_output rstate @ data\<rparr>, w))"

primrec deliver_headers :: "string list \<Rightarrow> request_state \<Rightarrow> world \<Rightarrow> request_state \<times> world" where
  "deliver_headers [] rstate w = (rstate, w)"
| "deliver_headers (h # hs) rstate w =
     (case header_callback h rstate w of (r1, w1) \<Rightarrow> deliver_headers hs r1 w1)"

primrec deliver_body :: "string list \<Rightarrow> request_state \<Rightarrow> world \<Rightarrow> request_state \<times> world" where
  "deliver_body [] rstate w = (rstate, w)"
| "deliver_body (d # ds) rstate w =
     (case write_callback d rstate w of (r1, w1) \<Rightarrow> deliver_body ds r1 w1)"

text \<open>
  \<open>curl_easy_perform\<close>: the request is logged, the next scripted transfer is taken, its
  header lines go through \<open>header_callback\<close> and then its body chunks through
  \<open>write_callback\<close>, and the clock advances by the transfer's duration. The result is
  the error message of the \<open>CURLcode\<close> (\<open>None\<close> for \<open>CURLE_OK\<close>) and the status code.
\<close>

definition curl_easy_perform ::
  "http_request \<Rightarrow> request_state \<Rightarrow> world \<Rightarrow> (string option \<times> int) \<times> request_state \<times> world" where
  "curl_easy_perform req rstate w =
     (let w0 = w\<lparr>net_log := net_log w @ [req\<lparr>req_time := clock w\<rparr>]\<rparr> in
        (case transfers w0 of
           [] \<Rightarrow> ((Some ''Couldn't connect to server'', 0), rstate, w0)
         | t # ts \<Rightarrow>
             (case deliver_headers (header_lines t) rstate (w0\<lparr>transfers := ts\<rparr>) of
                (r1, w1) \<Rightarrow>
                  (case deliver_body (body_chunks t) r1 w1 of
                     (r2, w2) \<Rightarrow>
                       ((curl_error t, status t), r2, w2\<lparr>clock := clock w2 + elapsed t\<rparr>)))))"

section \<open>Building and releasing the parameter string\<close>

fun construct_params :: "request_param list \<Rightarrow> world \<Rightarrow> string \<times> request_param list \<times> world" where
  "construct_params [] w = ([], [], w)"
| "construct_params (p # ps) w =
     (case curl_easy_escape (val p) w of
        (a, w1) \<Rightarrow>
          (case construct_params ps w1 of
             (rest, ps1, w2) \<Rightarrow>
               (key p @ ''='' @ buffer_text w1 (Some a) @ (if ps = [] then [] else ''&'') @ rest,
                p\<lparr>escaped_value := Some a\<rparr> # ps1, w2)))"

primrec free_params :: "request_param list \<Rightarrow> world \<Rightarrow> world" where
  "free_params [] w = w"
| "free_params (p # ps) w = free_params ps (curl_free (escaped_value p) w)"

section \<open>One request\<close>

definition base_uri :: string where
  "base_uri = ''http://localhost:3000''"

definition oauth_token_path :: string where
  "oauth_token_path = ''/oauth/token''"

definition device_flow_init_path :: string where
  "device_flow_init_path = ''/oauth/device_flow_init''"

definition device_flow_authorize_path :: string where
  "device_flow_authorize_path = ''/oauth/device_flow_authorize''"

definition raw_request ::
  "request_state \<Rightarrow> string \<Rightarrow> request_param list \<Rightarrow> HttpMethod \<Rightarrow> world \<Rightarrow>
   (error + int) \<times> request_state \<times> request_param list \<times> world" where
  "raw_request rstate path params method w =
     (case err_assert (easy_init_ok w) ''Error init-ing easy interface'' of
        Some e \<Rightarrow> (Inl e, rstate, params, w)
      | None \<Rightarrow>
          (case construct_params params w of
             (param_str, params1, w1) \<Rightarrow>
               (let req = (if method = GET
                             then \<lparr>req_method = GET, req_url = base_uri @ path @ ''?'' @ param_str,
                                   req_postfields = None, req_time = 0\<rparr>
                             else \<lparr>req_method = POST, req_url = base_uri @ path,
                                   req_postfields = Some param_str, req_time = 0\<rparr>)
                in (case curl_easy_perform req rstate w1 of
                      ((res, code), r1, w2) \<Rightarrow>
                        (case err_assert (res = None) (case res of None \<Rightarrow> [] | Some m \<Rightarrow> m) of
                           Some e \<Rightarrow> (Inl e, r1, params1, w2)
                         | None \<Rightarrow>
                             (Inr code, r1\<lparr>response_code := Some code\<rparr>, params1,
                              free_params params1 w2))))))"

definition document_has_error ::
  "(string \<Rightarrow> json option) \<Rightarrow> request_state \<Rightarrow> string \<Rightarrow> bool" where
  "document_has_error P rstate error_msg =
     (if is_download rstate then False
      else (let response = Parse P JNull (string_output rstate) in
              IsObject response \<and> HasMember response ''error'' = Inr True \<and>
              MemberString response ''error'' = Inr error_msg))"

definition oauth_auth_failed_response :: string where
  "oauth_auth_failed_response = ''OAuth2 authorization failed''"

section \<open>The client session\<close>

text \<open>
  The fields of \<open>AutolabClient\<close>. A method takes the session and the world and returns
  its result with both as it leaves them; an exception or a fatal error is the \<open>Inl\<close>
  of the result, and the session and the world it leaves behind are returned with it.
\<close>

record AutolabClient =
  api_version :: int
  client_id :: string
  client_secret :: string
  redirect_uri :: string
  access_token :: string
  refresh_token :: string
  device_flow_device_code :: string
  device_flow_user_code :: string

definition save_tokens_from_response :: "json \<Rightarrow> AutolabClient \<Rightarrow> (error + bool) \<times> AutolabClient" where
  "save_tokens_from_response response c =
     (case HasMember response ''access_token'' of
        Inl e \<Rightarrow> (Inl e, c)
      | Inr has_at \<Rightarrow>
          (case (if has_at then HasMember response ''refresh_token'' else Inr False) of
             Inl e \<Rightarrow> (Inl e, c)
           | Inr both \<Rightarrow>
               (if both then
                  (case MemberString response ''access_token'' of
                     Inl e \<Rightarrow> (Inl e, c)
                   | Inr at \<Rightarrow>
                       (case MemberString response ''refresh_token'' of
                          Inl e \<Rightarrow> (Inl e, c\<lparr>access_token := at\<rparr>)
                        | Inr rt \<Rightarrow> (Inr True, c\<lparr>access_token := at, refresh_token := rt\<rparr>)))
                else (Inr False, c))))"

section \<open>Refresh and retry\<close>

text \<open>
  \<open>raw_request_optional_refresh\<close> calls \<open>perform_token_refresh\<close>, which calls
  \<open>json_request\<close> with \<open>refresh = false\<close>, which calls \<open>raw_request_optional_refresh\<close>
  again: the three are defined together, and the recursion ends because the inner call
  never refreshes. \<open>json_request\<close> owns its \<open>request_state\<close>; the escaped-value
  pointers it leaves in the caller's parameters are dangling and are overwritten by the
  next \<open>construct_params\<close> before anything reads them, so they are not returned.
\<close>

function raw_request_optional_refresh ::
  "(string \<Rightarrow> json option) \<Rightarrow> request_state \<Rightarrow> string \<Rightarrow> request_param list \<Rightarrow> HttpMethod \<Rightarrow> bool \<Rightarrow>
   AutolabClient \<Rightarrow> world \<Rightarrow>
   (error + int) \<times> request_state \<times> request_param list \<times> AutolabClient \<times> world"
and json_request ::
  "(string \<Rightarrow> json option) \<Rightarrow> json \<Rightarrow> string \<Rightarrow> request_param list \<Rightarrow> HttpMethod \<Rightarrow> bool \<Rightarrow>
   AutolabClient \<Rightarrow> world \<Rightarrow> (error + int \<times> json) \<times> AutolabClient \<times> world"
and perform_token_refresh ::
  "(string \<Rightarrow> json option) \<Rightarrow> AutolabClient \<Rightarrow> world \<Rightarrow> (error + bool) \<times> AutolabClient \<times> world"
where
  "raw_request_optional_refresh P rstate path params method refresh c w =
     (case raw_request rstate path params method w of
        (Inl e, r1, ps1, w1) \<Rightarrow> (Inl e, r1, ps1, c, w1)
      | (Inr rc, r1, ps1, w1) \<Rightarrow>
          (if \<not> refresh then (Inr rc, r1, ps1, c, w1)
           else if rc = 200 \<or> \<not> document_has_error P r1 oauth_auth_failed_response
             then (Inr rc, r1, ps1, c, w1)
           else
             (case perform_token_refresh P c w1 of
                (Inl e, c2, w2) \<Rightarrow> (Inl e, r1, ps1, c2, w2)
              | (Inr refreshed, c2, w2) \<Rightarrow>
                  (if refreshed then
                     (case raw_request (reset r1) path ps1 method w2 of
                        (Inl e, r3, ps3, w3) \<Rightarrow> (Inl e, r3, ps3, c2, w3)
                      | (Inr rc2, r3, ps3, w3) \<Rightarrow>
                          (if rc2 = 200 \<or> \<not> document_has_error P r3 oauth_auth_failed_response
                             then (Inr rc2, r3, ps3, c2, w3)
                           else (Inl InvalidTokenException, r3, ps3, c2, w3)))
                   else (Inl InvalidTokenException, r1, ps1, c2, w2)))))"
| "json_request P response path params method refresh c w =
     (case raw_request_optional_refresh P new_request_state path params method refresh c w of
        (Inl e, r1, ps1, c1, w1) \<Rightarrow> (Inl e, c1, w1)
      | (Inr rc, r1, ps1, c1, w1) \<Rightarrow> (Inr (rc, Parse P response (string_output r1)), c1, w1))"
| "perform_token_refresh P c w =
     (case json_request P JNull oauth_token_path
             [param ''grant_type'' ''refresh_token'', param ''client_id'' (client_id c),
              param ''client_secret'' (client_secret c), param ''refresh_token'' (refresh_token c)]
             POST False c w of
        (Inl e, c1, w1) \<Rightarrow> (Inl e, c1, w1)
      | (Inr (rc, response), c1, w1) \<Rightarrow>
          (case save_tokens_from_response response c1 of (res, c2) \<Rightarrow> (res, c2, w1)))"
  by pat_completeness auto

termination
  apply (relation "measure (\<lambda>x. case x of
            Inl (P, rstate, path, params, method, refresh, c, w) \<Rightarrow> (if refresh then 3 else 0)
          | Inr (Inl (P, response, path, params, method, refresh, c, w)) \<Rightarrow> (if refresh then 4 else 1)
          | Inr (Inr (P, c, w)) \<Rightarrow> 2)")
  apply auto
  done

declare raw_request_optional_refresh.simps [simp del]

declare json_request.simps [simp del]

declare perform_token_refresh.simps [simp del]

text \<open>
  \<open>download_request\<close> owns a \<open>request_state\<close> with the download directory and the
  suggested file name; closing the stream before it returns changes nothing in the
  world, where writes have already reached the file.
\<close>

definition download_request ::
  "(string \<Rightarrow> json option) \<Rightarrow> string \<Rightarrow> string \<Rightarrow> string \<Rightarrow> request_param list \<Rightarrow> HttpMethod \<Rightarrow>
   bool \<Rightarrow> AutolabClient \<Rightarrow> world \<Rightarrow> (error + int) \<times> AutolabClient \<times> world" where
  "download_request P dir name_hint path params method refresh c w =
     (case raw_request_optional_refresh P (new_download_state dir name_hint) path params method
             refresh c w of
        (Inl e, r1, ps1, c1, w1) \<Rightarrow> (Inl e, c1, w1)
      | (Inr rc, r1, ps1, c1, w1) \<Rightarrow> (Inr rc, c1, w1))"

definition new_client :: "string \<Rightarrow> string \<Rightarrow> string \<Rightarrow> AutolabClient" where
  "new_client cid st ru =
     \<lparr>api_version = 1, client_id = cid, client_secret = st, redirect_uri = ru,
      access_token = [], refresh_token = [], device_flow_device_code = [],
      device_flow_user_code = []\<rparr>"

definition clear_device_flow_strings :: "AutolabClient \<Rightarrow> AutolabClient" where
  "clear_device_flow_strings c = c\<lparr>device_flow_device_code := [], device_flow_user_code := []\<rparr>"

definition get_token_from_authorization_code ::
  "(string \<Rightarrow> json option) \<Rightarrow> string \<Rightarrow> AutolabClient \<Rightarrow> world \<Rightarrow>
   (error + bool) \<times> AutolabClient \<times> world" where
  "get_token_from_authorization_code P authorization_code c w =
     (case json_request P JNull oauth_token_path
             [param ''grant_type'' ''authorization_code'', param ''client_id'' (client_id c),
              param ''client_secret'' (client_secret c), param ''redirect_uri'' (redirect_uri c),
              param ''code'' authorization_code]
             POST False c w of
        (Inl e, c1, w1) \<Rightarrow> (Inl e, c1, w1)
      | (Inr (rc, response), c1, w1) \<Rightarrow>
          (case save_tokens_from_response response c1 of (res, c2) \<Rightarrow> (res, c2, w1)))"

definition device_flow_authorize_wait_duration :: nat where
  "device_flow_authorize_wait_duration = 5 * 1000000000"

section \<open>Requests as they reach the network\<close>

text \<open>
  \<open>param_string\<close> is the string \<open>construct_params\<close> builds, without the allocator,
  and \<open>request_of\<close> the request \<open>raw_request\<close> hands to \<open>curl_easy_perform\<close>. The next
  three are the requests of the token refresh, of a device-flow poll and of the code
  exchange, written out.
\<close>

fun param_string :: "request_param list \<Rightarrow> string" where
  "param_string [] = []"
| "param_string (p # ps) =
     key p @ ''='' @ percent_encode (val p) @ (if ps = [] then [] else ''&'') @ param_string ps"

definition request_of :: "string \<Rightarrow> request_param list \<Rightarrow> HttpMethod \<Rightarrow> http_request" where
  "request_of path ps method =
     (if method = GET
        then \<lparr>req_method = GET, req_url = base_uri @ path @ ''?'' @ param_string ps,
              req_postfields = None, req_time = 0\<rparr>
      else \<lparr>req_method = POST, req_url = base_uri @ path,
            req_postfields = Some (param_string ps), req_time = 0\<rparr>)"

definition refresh_request :: "AutolabClient \<Rightarrow> http_request" where
  "refresh_request c =
     \<lparr>req_method = POST, req_url = ''http://localhost:3000/oauth/token'',
      req_postfields = Some (''grant_type=refresh_token&client_id='' @
        percent_encode (client_id c) @ ''&client_secret='' @ percent_encode (client_secret c) @
        ''&refresh_token='' @ percent_encode (refresh_token c)),
      req_time = 0\<rparr>"

definition poll_request :: "AutolabClient \<Rightarrow> http_request" where
  "poll_request c =
     \<lparr>req_method = GET,
      req_url = ''http://localhost:3000/oauth/device_flow_authorize?client_id='' @
                percent_encode (client_id c) @ ''&device_code='' @
                percent_encode (device_flow_device_code c),
      req_postfields = None, req_time = 0\<rparr>"

definition exchange_request :: "AutolabClient \<Rightarrow> string \<Rightarrow> http_request" where
  "exchange_request c code =
     \<lparr>req_method = POST, req_url = ''http://localhost:3000/oauth/token'',
      req_postfields = Some (''grant_type=authorization_code&client_id='' @
        percent_encode (client_id c) @ ''&client_secret='' @ percent_encode (client_secret c) @
        ''&redirect_uri='' @ percent_encode (redirect_uri c) @ ''&code='' @ percent_encode code),
      req_time = 0\<rparr>"

section \<open>Scenarios\<close>

text \<open>
  What the server of the polling scenario sends: a pending reply is a completed transfer
  whose body is an object without \<open>code\<close> and with the error \<open>authorization_pending\<close>, a
  code reply carries \<open>code\<close> as a string, and a token reply carries both tokens as
  strings. \<open>poll_times t0 ts\<close> are the times at which successive polls are sent when the
  first goes out at \<open>t0\<close> and the transfers \<open>ts\<close> answer them, each followed by the
  five-second sleep; \<open>waiting_time ts\<close> is the time all of that takes. \<open>spaced d\<close> says
  that consecutive times are at least \<open>d\<close> apart.
\<close>

definition pending_reply :: "(string \<Rightarrow> json option) \<Rightarrow> transfer \<Rightarrow> bool" where
  "pending_reply P t =
     (curl_error t = None \<and>
      (case P (concat (body_chunks t)) of
         Some (JObject ms) \<Rightarrow>
           map_of ms ''code'' = None \<and> map_of ms ''error'' = Some (JString ''authorization_pending'')
       | _ \<Rightarrow> False))"

definition code_reply :: "(string \<Rightarrow> json option) \<Rightarrow> string \<Rightarrow> transfer \<Rightarrow> bool" where
  "code_reply P code t =
     (curl_error t = None \<and>
      (case P (concat (body_chunks t)) of
         Some (JObject ms) \<Rightarrow> map_of ms ''code'' = Some (JString code)
       | _ \<Rightarrow> False))"

definition token_reply :: "(string \<Rightarrow> json option) \<Rightarrow> string \<Rightarrow> string \<Rightarrow> transfer \<Rightarrow> bool" where
  "token_reply P at rt t =
     (curl_error t = None \<and>
      (case P (concat (body_chunks t)) of
         Some (JObject ms) \<Rightarrow>
           map_of ms ''access_token'' = Some (JString at) \<and>
           map_of ms ''refresh_token'' = Some (JString rt)
       | _ \<Rightarrow> False))"

fun poll_times :: "nat \<Rightarrow> transfer list \<Rightarrow> nat list" where
  "poll_times t0 [] = []"
| "poll_times t0 (t # ts) = t0 # poll_times (t0 + elapsed t + device_flow_authorize_wait_duration) ts"

fun spaced :: "nat \<Rightarrow> nat list \<Rightarrow> bool" where
  "spaced d (a # b # r) = (a + d \<le> b \<and> spaced d (b # r))"
| "spaced d r = True"

definition waiting_time :: "transfer list \<Rightarrow> nat" where
  "waiting_time ts = sum_list (map (\<lambda>t. elapsed t + device_flow_authorize_wait_duration) ts)"

text \<open>
  A key is plain when it holds neither \<open>&\<close> nor \<open>=\<close>. \<open>handout_header\<close> is the header
  line of a handout download, without its line ending, and \<open>no_disposition h\<close> says that
  the header line \<open>h\<close> does not mention \<open>Content-Disposition:\<close>.
\<close>

definition plain_key :: "request_param \<Rightarrow> bool" where
  "plain_key p = (CHR ''&'' \<notin> set (key p) \<and> CHR ''='' \<notin> set (key p))"

definition handout_header :: string where
  "handout_header =
     ''Content-Disposition: attachment; filename='' @ [dquote] @ ''handout.pdf'' @ [dquote]"

definition no_disposition :: "string \<Rightarrow> bool" where
  "no_disposition h = (str_find h ''Content-Disposition:'' 0 = None)"

section \<open>Example values\<close>

text \<open>
  A world with a given script of transfers and nothing else in it, a JSON reply, a parser
  that knows a handful of texts, a client holding a pair of tokens and one that also
  holds a device code. The scripts are those of a server that answers two polls with
  \<open>authorization_pending\<close> before it sends the code, of one that sends the code at once
  and then the tokens or a refusal of the exchange, of one that rejects the access token
  once and accepts the call after the refresh, of one that rejects it again, of one that
  refuses the refresh, and of one that answers the retry with the rejection under status
  200.
  \<open>codec_params\<close> is a parameter list whose values need escaping, \<open>handout_reply\<close> a
  response that carries the handout header among others and a body in two chunks,
  \<open>repeated_header_reply\<close> the same with the handout header sent twice, and
  \<open>read_only_world\<close> a world in which no file can be opened for writing. The closed
  instances of the theorems below are stated on these.
\<close>

definition example_world :: "transfer list \<Rightarrow> world" where
  "example_world ts =
     \<lparr>transfers = ts, net_log = [], clock = 0, easy_init_ok = True, bufs = (\<lambda>a. None),
      next_buf = 0, freed = [], files = (\<lambda>p. None), can_open = (\<lambda>p. True)\<rparr>"

definition json_reply :: "int \<Rightarrow> string \<Rightarrow> transfer" where
  "json_reply code body =
     \<lparr>curl_error = None, status = code, header_lines = [''Content-Type: application/json''],
      body_chunks = [body], elapsed = 1000000\<rparr>"

definition example_parse :: "string \<Rightarrow> json option" where
  "example_parse s =
     (if s = ''{\"error\":\"OAuth2 authorization failed\"}''
        then Some (JObject [(''error'', JString ''OAuth2 authorization failed'')])
      else if s = ''{\"error\":\"authorization_pending\"}''
        then Some (JObject [(''error'', JString ''authorization_pending'')])
      else if s = ''{\"error\":\"access_denied\"}''
        then Some (JObject [(''error'', JString ''access_denied'')])
      else if s = ''{\"code\":\"c0de\"}''
        then Some (JObject [(''code'', JString ''c0de'')])
      else if s = ''{\"access_token\":\"A1\",\"refresh_token\":\"R1\"}''
        then Some (JObject [(''access_token'', JString ''A1''), (''refresh_token'', JString ''R1'')])
      else if s = ''{\"access_token\":\"A1\"}''
        then Some (JObject [(''access_token'', JString ''A1'')])
      else if s = ''{\"name\":\"x\"}''
        then Some (JObject [(''name'', JString ''x'')])
      else if s = ''{}''
        then Some (JObject [])
      else None)"

definition example_client :: AutolabClient where
  "example_client =
     (new_client ''id'' ''secret'' ''uri'')\<lparr>access_token := ''A0'', refresh_token := ''R0''\<rparr>"

definition pending_client :: AutolabClient where
  "pending_client = example_client\<lparr>device_flow_device_code := ''dc''\<rparr>"

definition two_pending_then_code :: "transfer list" where
  "two_pending_then_code =
     [json_reply 400 ''{\"error\":\"authorization_pending\"}'',
      json_reply 400 ''{\"error\":\"authorization_pending\"}'',
      json_reply 200 ''{\"code\":\"c0de\"}'',
      json_reply 200 ''{\"access_token\":\"A1\",\"refresh_token\":\"R1\"}'']"

definition code_then_tokens :: "transfer list" where
  "code_then_tokens =
     [json_reply 200 ''{\"code\":\"c0de\"}'',
      json_reply 200 ''{\"access_token\":\"A1\",\"refresh_token\":\"R1\"}'']"

definition code_then_refusal :: "transfer list" where
  "code_then_refusal =
     [json_reply 200 ''{\"code\":\"c0de\"}'',
      json_reply 400 ''{\"error\":\"access_denied\"}'']"

definition retry_script :: "transfer list" where
  "retry_script =
     [json_reply 401 ''{\"error\":\"OAuth2 authorization failed\"}'',
      json_reply 200 ''{\"access_token\":\"A1\",\"refresh_token\":\"R1\"}'',
      json_reply 200 ''{\"name\":\"x\"}'']"

definition rejected_twice_script :: "transfer list" where
  "rejected_twice_script =
     [json_reply 401 ''{\"error\":\"OAuth2 authorization failed\"}'',
      json_reply 200 ''{\"access_token\":\"A1\",\"refresh_token\":\"R1\"}'',
      json_reply 401 ''{\"error\":\"OAuth2 authorization failed\"}'']"

definition refresh_refused_script :: "transfer list" where
  "refresh_refused_script =
     [json_reply 401 ''{\"error\":\"OAuth2 authorization failed\"}'',
      json_reply 400 ''{\"error\":\"access_denied\"}'']"

definition sentinel_200_script :: "transfer list" where
  "sentinel_200_script =
     [json_reply 401 ''{\"error\":\"OAuth2 authorization failed\"}'',
      json_reply 200 ''{\"access_token\":\"A1\",\"refresh_token\":\"R1\"}'',
      json_reply 200 ''{\"error\":\"OAuth2 authorization failed\"}'']"

definition user_params :: "request_param list" where
  "user_params = [param ''access_token'' ''A0'']"

definition codec_params :: "request_param list" where
  "codec_params = [param ''client_id'' ''a b'', param ''code'' ''x&y=z'']"

definition crlf :: string where
  "crlf = [CHR 0x0D, CHR 0x0A]"

definition handout_reply :: transfer where
  "handout_reply =
     \<lparr>curl_error = None, status = 200,
      header_lines = [''HTTP/1.1 200 OK'' @ crlf, handout_header @ crlf,
                      ''Content-Type: application/pdf'' @ crlf, crlf],
      body_chunks = [''%PDF-1.4 '', ''handout''], elapsed = 2000000\<rparr>"

definition repeated_header_reply :: transfer where
  "repeated_header_reply =
     \<lparr>curl_error = None, status = 200,
      header_lines = [''HTTP/1.1 200 OK'' @ crlf, handout_header @ crlf, handout_header @ crlf,
                      crlf],
      body_chunks = [''%PDF-1.4 '', ''handout''], elapsed = 2000000\<rparr>"

definition read_only_world :: "transfer list \<Rightarrow> world" where
  "read_only_world ts = (example_world ts)\<lparr>can_open := (\<lambda>p. False)\<rparr>"

section \<open>What a request changes in the world\<close>

lemma construct_params_frame:
  "construct_params ps w = (s, ps1, w1) \<Longrightarrow>
     clock w1 = clock w \<and> transfers w1 = transfers w \<and> net_log w1 = net_log w \<and>
     easy_init_ok w1 = easy_init_ok w \<and> files w1 = files w \<and> can_open w1 = can_open w \<and>
     freed w1 = freed w"
proof (induction ps arbitrary: w s ps1 w1)
  case Nil
  then show ?case by simp
next
  case (Cons p ps)
  obtain rest ps2 w2 where r: "construct_params ps (snd (curl_easy_escape (val p) w)) = (rest, ps2, w2)"
    by (metis prod_cases3)
  from Cons.IH [OF r] Cons.prems r show ?case
    by (auto simp: curl_easy_escape_def)
qed

lemma free_params_frame:
  "clock (free_params ps w) = clock w \<and> transfers (free_params ps w) = transfers w \<and>
   net_log (free_params ps w) = net_log w \<and> easy_init_ok (free_params ps w) = easy_init_ok w \<and>
   files (free_params ps w) = files w \<and> can_open (free_params ps w) = can_open w \<and>
   next_buf (free_params ps w) = next_buf w"
  by (induction ps arbitrary: w) (auto simp: curl_free_def split: option.splits)

lemma header_callback_frame:
  "header_callback h r w = (r1, w1) \<Longrightarrow>
     clock w1 = clock w \<and> transfers w1 = transfers w \<and> net_log w1 = net_log w \<and>
     easy_init_ok w1 = easy_init_ok w \<and> can_open w1 = can_open w \<and>
     bufs w1 = bufs w \<and> next_buf w1 = next_buf w \<and> freed w1 = freed w"
  by (auto simp: header_callback_def ofstream_open_def Let_def split: option.splits prod.splits if_splits)

lemma write_callback_frame:
  "write_callback d r w = (r1, w1) \<Longrightarrow>
     clock w1 = clock w \<and> transfers w1 = transfers w \<and> net_log w1 = net_log w \<and>
     easy_init_ok w1 = easy_init_ok w \<and> can_open w1 = can_open w \<and>
     bufs w1 = bufs w \<and> next_buf w1 = next_buf w \<and> freed w1 = freed w"
  by (auto simp: write_callback_def ofstream_write_def split: prod.splits if_splits)

lemma deliver_headers_frame:
  "deliver_headers hs r w = (r1, w1) \<Longrightarrow>
     clock w1 = clock w \<and> transfers w1 = transfers w \<and> net_log w1 = net_log w \<and>
     easy_init_ok w1 = easy_init_ok w \<and> can_open w1 = can_open w \<and>
     bufs w1 = bufs w \<and> next_buf w1 = next_buf w \<and> freed w1 = freed w"
proof (induction hs arbitrary: r w)
  case Nil
  then show ?case by simp
next
  case (Cons h hs)
  obtain r2 w2 where hc: "header_callback h r w = (r2, w2)" by (cases "header_callback h r w")
  from Cons.prems hc have "deliver_headers hs r2 w2 = (r1, w1)" by simp
  from Cons.IH [OF this] header_callback_frame [OF hc] show ?case by simp
qed

lemma deliver_body_frame:
  "deliver_body ds r w = (r1, w1) \<Longrightarrow>
     clock w1 = clock w \<and> transfers w1 = transfers w \<and> net_log w1 = net_log w \<and>
     easy_init_ok w1 = easy_init_ok w \<and> can_open w1 = can_open w \<and>
     bufs w1 = bufs w \<and> next_buf w1 = next_buf w \<and> freed w1 = freed w"
proof (induction ds arbitrary: r w)
  case Nil
  then show ?case by simp
next
  case (Cons d ds)
  obtain r2 w2 where hc: "write_callback d r w = (r2, w2)" by (cases "write_callback d r w")
  from Cons.prems hc have "deliver_body ds r2 w2 = (r1, w1)" by simp
  from Cons.IH [OF this] write_callback_frame [OF hc] show ?case by simp
qed

lemma curl_easy_perform_frame:
  assumes "curl_easy_perform req r w = (res, r1, w1)"
  shows "clock w \<le> clock w1 \<and> easy_init_ok w1 = easy_init_ok w \<and> can_open w1 = can_open w \<and>
         bufs w1 = bufs w \<and> next_buf w1 = next_buf w \<and> freed w1 = freed w \<and>
         net_log w1 = net_log w @ [req\<lparr>req_time := clock w\<rparr>] \<and> transfers w1 = tl (transfers w)"
proof (cases "transfers w")
  case Nil
  with assms show ?thesis by (auto simp: curl_easy_perform_def)
next
  case (Cons t ts)
  let ?w0 = "w\<lparr>net_log := net_log w @ [req\<lparr>req_time := clock w\<rparr>], transfers := ts\<rparr>"
  obtain r2 w2 where dh: "deliver_headers (header_lines t) r ?w0 = (r2, w2)"
    by (cases "deliver_headers (header_lines t) r ?w0")
  obtain r3 w3 where db: "deliver_body (body_chunks t) r2 w2 = (r3, w3)"
    by (cases "deliver_body (body_chunks t) r2 w2")
  from assms Cons dh db have "w1 = w3\<lparr>clock := clock w3 + elapsed t\<rparr>"
    by (auto simp: curl_easy_perform_def)
  with deliver_headers_frame [OF dh] deliver_body_frame [OF db] Cons show ?thesis by simp
qed

lemma construct_params_string:
  "construct_params ps w = (s, ps1, w1) \<Longrightarrow>
     s = param_string ps \<and> param_string ps1 = param_string ps \<and> length ps1 = length ps"
proof (induction ps arbitrary: w s ps1 w1)
  case Nil
  then show ?case by simp
next
  case (Cons p ps)
  obtain rest ps2 w2 where r: "construct_params ps (snd (curl_easy_escape (val p) w)) = (rest, ps2, w2)"
    by (metis prod_cases3)
  from Cons.IH [OF r] have ih: "rest = param_string ps" "param_string ps2 = param_string ps"
    "length ps2 = length ps" by simp_all
  from ih(3) have e: "(ps2 = []) = (ps = [])" by auto
  from Cons.prems r ih e show ?case
    by (auto simp: curl_easy_escape_def buffer_text_def)
qed

lemma raw_request_unfold:
  "raw_request r path ps m w =
     (if \<not> easy_init_ok w then (Inl (Fatal ''Error init-ing easy interface''), r, ps, w)
      else (case construct_params ps w of
              (s, ps1, w1) \<Rightarrow>
                (case curl_easy_perform (request_of path ps m) r w1 of
                   ((cerr, code), r1, w2) \<Rightarrow>
                     (case cerr of
                        Some msg \<Rightarrow> (Inl (Fatal msg), r1, ps1, w2)
                      | None \<Rightarrow> (Inr code, r1\<lparr>response_code := Some code\<rparr>, ps1,
                                 free_params ps1 w2)))))"
proof -
  obtain s ps1 w1 where cp: "construct_params ps w = (s, ps1, w1)" by (metis prod_cases3)
  from construct_params_string [OF cp] have s: "s = param_string ps" by simp
  show ?thesis
    using cp s
    by (auto simp: raw_request_def err_assert_def request_of_def Let_def
             split: option.splits prod.splits)
qed

lemma raw_request_frame:
  assumes "raw_request r path ps m w = (res, r1, ps1, w1)"
  shows "clock w \<le> clock w1 \<and> easy_init_ok w1 = easy_init_ok w \<and> can_open w1 = can_open w \<and>
         param_string ps1 = param_string ps"
proof (cases "easy_init_ok w")
  case False
  with assms show ?thesis by (auto simp: raw_request_unfold)
next
  case True
  obtain s ps2 w2 where cp: "construct_params ps w = (s, ps2, w2)" by (metis prod_cases3)
  obtain cerr code r3 w3 where pf: "curl_easy_perform (request_of path ps m) r w2 = ((cerr, code), r3, w3)"
    by (metis surj_pair)
  from assms True cp pf have "ps1 = ps2 \<and> (w1 = w3 \<or> w1 = free_params ps2 w3)"
    by (auto simp: raw_request_unfold split: option.splits)
  with construct_params_frame [OF cp] curl_easy_perform_frame [OF pf] construct_params_string [OF cp]
    free_params_frame [of ps2 w3]
  show ?thesis by auto
qed

lemma raw_request_log:
  assumes "raw_request r path ps m w = (res, r1, ps1, w1)" and "easy_init_ok w"
  shows "net_log w1 = net_log w @ [(request_of path ps m)\<lparr>req_time := clock w\<rparr>] \<and>
         transfers w1 = tl (transfers w)"
proof -
  obtain s ps2 w2 where cp: "construct_params ps w = (s, ps2, w2)" by (metis prod_cases3)
  obtain cerr code r3 w3 where pf: "curl_easy_perform (request_of path ps m) r w2 = ((cerr, code), r3, w3)"
    by (metis surj_pair)
  from assms cp pf have "w1 = w3 \<or> w1 = free_params ps2 w3"
    by (auto simp: raw_request_unfold split: option.splits)
  with construct_params_frame [OF cp] curl_easy_perform_frame [OF pf] free_params_frame [of ps2 w3]
  show ?thesis by auto
qed

lemma json_request_no_refresh:
  "json_request P resp path ps m False c w =
     (case raw_request new_request_state path ps m w of
        (Inl e, r1, ps1, w1) \<Rightarrow> (Inl e, c, w1)
      | (Inr rc, r1, ps1, w1) \<Rightarrow> (Inr (rc, Parse P resp (string_output r1)), c, w1))"
  by (simp add: json_request.simps raw_request_optional_refresh.simps split: prod.splits sum.splits)

lemma json_request_no_refresh_frame:
  assumes "json_request P resp path ps m False c w = (res, c1, w1)"
  shows "c1 = c \<and> clock w \<le> clock w1 \<and> easy_init_ok w1 = easy_init_ok w"
proof -
  obtain rr r2 ps2 w2 where rq: "raw_request new_request_state path ps m w = (rr, r2, ps2, w2)"
    by (metis prod_cases4)
  from assms rq have "c1 = c \<and> w1 = w2"
    by (auto simp: json_request_no_refresh split: sum.splits)
  with raw_request_frame [OF rq] show ?thesis by simp
qed

lemma raw_request_completed:
  assumes "raw_request r path ps m w = (Inr rc, r1, ps1, w1)"
  shows "transfers w \<noteq> [] \<and> transfers w1 = tl (transfers w)"
proof -
  from assms have ok: "easy_init_ok w" by (auto simp: raw_request_unfold split: if_splits)
  obtain s ps2 w2 where cp: "construct_params ps w = (s, ps2, w2)" by (metis prod_cases3)
  obtain cerr code r3 w3 where pf: "curl_easy_perform (request_of path ps m) r w2 = ((cerr, code), r3, w3)"
    by (metis surj_pair)
  from assms ok cp pf have "cerr = None"
    by (auto simp: raw_request_unfold split: option.splits)
  with pf have "transfers w2 \<noteq> []"
    by (auto simp: curl_easy_perform_def)
  with construct_params_frame [OF cp] raw_request_log [OF assms ok] show ?thesis by simp
qed

lemma json_request_no_refresh_completed:
  assumes "json_request P resp path ps m False c w = (Inr x, c1, w1)"
  shows "transfers w \<noteq> [] \<and> transfers w1 = tl (transfers w)"
proof -
  obtain rr r2 ps2 w2 where rq: "raw_request new_request_state path ps m w = (rr, r2, ps2, w2)"
    by (metis prod_cases4)
  from assms rq obtain rc where "rr = Inr rc" and "w1 = w2"
    by (auto simp: json_request_no_refresh split: sum.splits)
  with raw_request_completed [of new_request_state path ps m w rc r2 ps2 w2] rq show ?thesis by simp
qed

section \<open>Device flow\<close>

text \<open>
  The polling loop of \<open>device_flow_authorize\<close>. \<open>t_now\<close> is read from the clock just
  before the loop and again at the end of every round, so the loop test reads the
  clock of the world it is entered with. \<open>response\<close> is one document for the whole loop.

  \<open>timeout\<close> is a \<open>size_t\<close>. \<open>std::chrono::seconds(timeout)\<close> takes its 64 bits as the
  signed count of a duration in seconds; adding that to the time point converts it to
  nanoseconds, a multiplication by \<open>10\<^sup>9\<close>, and adds the two counts, all in signed 64-bit
  arithmetic, and \<open>t_now < t_end\<close> compares the signed counts. The counts are 64-bit
  words here, read with \<open>sint\<close> for the comparison, so that a product or a sum out of
  range wraps around as it does in the compiled program.

  The recursion is well-founded on the script of transfers: a round that continues has
  completed a poll, which takes one transfer from the script, and with the script
  exhausted the connection is refused and the call ends there.
\<close>

function device_flow_loop ::
  "(string \<Rightarrow> json option) \<Rightarrow> request_param list \<Rightarrow> json \<Rightarrow> 64 word \<Rightarrow> AutolabClient \<Rightarrow> world \<Rightarrow>
   (error + int) \<times> AutolabClient \<times> world" where
  "device_flow_loop P params response t_end c w =
     (if sint (steady_clock_now w) < sint t_end then
        (case json_request P response device_flow_authorize_path params GET False c w of
           (Inl e, c1, w1) \<Rightarrow> (Inl e, c1, w1)
         | (Inr (rc, response1), c1, w1) \<Rightarrow>
             (case HasMember response1 ''code'' of
                Inl e \<Rightarrow> (Inl e, c1, w1)
              | Inr has_code \<Rightarrow>
                  (if has_code then
                     (case MemberString response1 ''code'' of
                        Inl e \<Rightarrow> (Inl e, c1, w1)
                      | Inr code \<Rightarrow>
                          (case get_token_from_authorization_code P code c1 w1 of
                             (Inl e, c2, w2) \<Rightarrow> (Inl e, c2, w2)
                           | (Inr saved, c2, w2) \<Rightarrow> (Inr 0, clear_device_flow_strings c2, w2)))
                   else
                     (case MemberString response1 ''error'' of
                        Inl e \<Rightarrow> (Inl e, c1, w1)
                      | Inr error_string \<Rightarrow>
                          (if error_string \<noteq> ''authorization_pending''
                             then (Inr 1, clear_device_flow_strings c1, w1)
                           else device_flow_loop P params response1 t_end c1
                                  (sleep_for device_flow_authorize_wait_duration w1))))))
      else (Inr (- 2), c, w))"
  by pat_completeness auto

termination
  apply (relation "measure (\<lambda>(P, params, response, t_end, c, w). length (transfers w))")
   apply simp
  apply (clarsimp simp: sleep_for_def)
  apply (drule sym)
  apply (drule json_request_no_refresh_completed)
  apply simp
  done

declare device_flow_loop.simps [simp del]

definition device_flow_authorize ::
  "(string \<Rightarrow> json option) \<Rightarrow> 64 word \<Rightarrow> AutolabClient \<Rightarrow> world \<Rightarrow>
   (error + int) \<times> AutolabClient \<times> world" where
  "device_flow_authorize P timeout c w =
     (if length (device_flow_device_code c) = 0 then (Inr (- 1), c, w)
      else (let params = [param ''client_id'' (client_id c),
                          param ''device_code'' (device_flow_device_code c)];
                t_now = steady_clock_now w;
                t_end = t_now + timeout * 1000000000
            in device_flow_loop P params JNull t_end c w))"

text \<open>
  Below \<open>2\<^sup>6\<^sup>3\<close> nanoseconds the signed count of a time is the time itself, and the
  deadline is the sum it is meant to be when that sum is below \<open>2\<^sup>6\<^sup>3\<close>.
\<close>

lemma sint_time_point:
  assumes "n < 2 ^ 63"
  shows "sint (word_of_nat n :: 64 word) = int n"
proof -
  have "int n < 2 ^ 63" using assms by (metis of_nat_less_iff of_nat_numeral of_nat_power)
  then have "signed_take_bit 63 (int n) = int n"
    by (simp add: signed_take_bit_int_eq_self)
  moreover have "(word_of_nat n :: 64 word) = word_of_int (int n)" by simp
  ultimately show ?thesis by (simp only: sint_sbintrunc') simp
qed

lemma before_deadline:
  assumes "clock w < t" and "t < 2 ^ 63"
  shows "sint (steady_clock_now w) < sint (word_of_nat t :: 64 word)"
proof -
  from assms have "clock w < 2 ^ 63" by simp
  from sint_time_point [OF this] sint_time_point [OF assms(2)] assms(1)
  show ?thesis by (simp add: steady_clock_now_def)
qed

lemma deadline_in_range:
  "steady_clock_now w + timeout * 1000000000 =
     (word_of_nat (clock w + unat timeout * 1000000000) :: 64 word)"
  by (simp add: steady_clock_now_def)

section \<open>Requests that are not downloads\<close>

lemma deliver_headers_plain:
  "download_dir r = [] \<Longrightarrow> deliver_headers hs r w = (r, w)"
  by (induction hs) (simp_all add: header_callback_def consider_download_def)

lemma deliver_body_plain:
  "\<not> is_download r \<Longrightarrow> deliver_body ds r w = (r\<lparr>string_output := string_output r @ concat ds\<rparr>, w)"
  by (induction ds arbitrary: r) (simp_all add: write_callback_def)

lemma curl_easy_perform_plain:
  assumes "transfers w = t # ts" and "download_dir r = []" and "\<not> is_download r"
  shows "curl_easy_perform req r w =
           ((curl_error t, status t), r\<lparr>string_output := string_output r @ concat (body_chunks t)\<rparr>,
            w\<lparr>net_log := net_log w @ [req\<lparr>req_time := clock w\<rparr>], transfers := ts,
              clock := clock w + elapsed t\<rparr>)"
  using assms by (simp add: curl_easy_perform_def deliver_headers_plain deliver_body_plain)

lemma json_request_plain:
  assumes "easy_init_ok w" and "transfers w = t # ts" and "curl_error t = None"
  shows "\<exists>w1. json_request P resp path ps m False c w =
                (Inr (status t, Parse P resp (concat (body_chunks t))), c, w1) \<and>
              transfers w1 = ts \<and>
              net_log w1 = net_log w @ [(request_of path ps m)\<lparr>req_time := clock w\<rparr>] \<and>
              clock w1 = clock w + elapsed t \<and> easy_init_ok w1 \<and> can_open w1 = can_open w \<and>
              files w1 = files w"
proof -
  obtain s ps1 w1 where cp: "construct_params ps w = (s, ps1, w1)" by (metis prod_cases3)
  note fr = construct_params_frame [OF cp]
  from fr assms have t1: "transfers w1 = t # ts" by simp
  have pf: "curl_easy_perform (request_of path ps m) new_request_state w1 =
     ((None, status t), new_request_state\<lparr>string_output := concat (body_chunks t)\<rparr>,
      w1\<lparr>net_log := net_log w1 @ [(request_of path ps m)\<lparr>req_time := clock w1\<rparr>], transfers := ts,
         clock := clock w1 + elapsed t\<rparr>)"
    using curl_easy_perform_plain [OF t1, of new_request_state "request_of path ps m"] assms(3)
    by (simp add: new_request_state_def)
  show ?thesis
    using assms(1) cp pf fr free_params_frame
    by (simp add: json_request_no_refresh raw_request_unfold)
qed

lemma triple_eqI: "fst x = a \<Longrightarrow> x = (a, fst (snd x), snd (snd x))"
  by (cases x) auto

lemmas eval_defs =
  perform_token_refresh.simps json_request.simps raw_request_optional_refresh.simps
  get_token_from_authorization_code_def device_flow_authorize_def
  raw_request_def example_world_def json_reply_def example_client_def new_client_def err_assert_def
  param_def curl_easy_escape_def buffer_text_def curl_easy_perform_def header_callback_def
  consider_download_def write_callback_def new_request_state_def Let_def
  curl_free_def Parse_def example_parse_def save_tokens_from_response_def HasMember_def
  MemberString_def Member_def GetString_def oauth_token_path_def base_uri_def
  device_flow_authorize_path_def clear_device_flow_strings_def steady_clock_now_def sleep_for_def
  device_flow_authorize_wait_duration_def document_has_error_def IsObject_def
  oauth_auth_failed_response_def reset_def

section \<open>Device flow before initialisation\<close>

text \<open>
  Claim C3. When \<open>device_flow_init\<close> has not run, so that the stored device code is
  empty, \<open>device_flow_authorize\<close> returns \<open>-1\<close> for every timeout, and the session and the
  world are as they were: no request has been logged.
\<close>

theorem device_flow_authorize_before_init:
  assumes "device_flow_device_code c = []"
  shows "device_flow_authorize P timeout c w = (Inr (- 1), c, w) \<and>
         net_log (snd (snd (device_flow_authorize P timeout c w))) = net_log w"
  using assms by (simp add: device_flow_authorize_def)

theorem device_flow_authorize_before_init_witness:
  "device_flow_authorize example_parse 300 example_client (example_world []) =
     (Inr (- 1), example_client, example_world []) \<and>
   net_log (snd (snd (device_flow_authorize example_parse 300 example_client (example_world [])))) =
     net_log (example_world [])"
  using device_flow_authorize_before_init [of example_client example_parse 300 "example_world []"]
  by (simp add: example_client_def new_client_def)

section \<open>Token exchange and refresh\<close>

lemma save_tokens_both:
  assumes "map_of ms ''access_token'' = Some (JString at)"
      and "map_of ms ''refresh_token'' = Some (JString rt)"
  shows "save_tokens_from_response (JObject ms) c = (Inr True, c\<lparr>access_token := at, refresh_token := rt\<rparr>)"
  using assms
  by (simp add: save_tokens_from_response_def HasMember_def MemberString_def Member_def GetString_def)

lemma save_tokens_absent:
  assumes "map_of ms ''access_token'' = None \<or> map_of ms ''refresh_token'' = None"
  shows "save_tokens_from_response (JObject ms) c = (Inr False, c)"
  using assms
  by (auto simp: save_tokens_from_response_def HasMember_def)

lemma save_tokens_true:
  assumes "fst (save_tokens_from_response (JObject ms) c) = Inr True"
  shows "\<exists>at rt. map_of ms ''access_token'' = Some (JString at) \<and>
                 map_of ms ''refresh_token'' = Some (JString rt)"
  using assms
  by (auto simp: save_tokens_from_response_def HasMember_def MemberString_def Member_def GetString_def
           split: if_splits sum.splits option.splits json.splits)

lemma perform_token_refresh_plain:
  assumes "easy_init_ok w" and "transfers w = t # ts" and "curl_error t = None"
  shows "fst (perform_token_refresh P c w) =
           fst (save_tokens_from_response (Parse P JNull (concat (body_chunks t))) c) \<and>
         fst (snd (perform_token_refresh P c w)) =
           snd (save_tokens_from_response (Parse P JNull (concat (body_chunks t))) c)"
proof -
  let ?ps = "[param ''grant_type'' ''refresh_token'', param ''client_id'' (client_id c),
              param ''client_secret'' (client_secret c), param ''refresh_token'' (refresh_token c)]"
  from json_request_plain [OF assms, of P JNull oauth_token_path ?ps POST c]
  obtain w1 where "json_request P JNull oauth_token_path ?ps POST False c w =
      (Inr (status t, Parse P JNull (concat (body_chunks t))), c, w1)" by blast
  then show ?thesis by (simp add: perform_token_refresh.simps split: prod.splits)
qed

lemma get_token_plain:
  assumes "easy_init_ok w" and "transfers w = t # ts" and "curl_error t = None"
  shows "fst (get_token_from_authorization_code P code c w) =
           fst (save_tokens_from_response (Parse P JNull (concat (body_chunks t))) c) \<and>
         fst (snd (get_token_from_authorization_code P code c w)) =
           snd (save_tokens_from_response (Parse P JNull (concat (body_chunks t))) c)"
proof -
  let ?ps = "[param ''grant_type'' ''authorization_code'', param ''client_id'' (client_id c),
              param ''client_secret'' (client_secret c), param ''redirect_uri'' (redirect_uri c),
              param ''code'' code]"
  from json_request_plain [OF assms, of P JNull oauth_token_path ?ps POST c]
  obtain w1 where "json_request P JNull oauth_token_path ?ps POST False c w =
      (Inr (status t, Parse P JNull (concat (body_chunks t))), c, w1)" by blast
  then show ?thesis by (simp add: get_token_from_authorization_code_def split: prod.splits)
qed

text \<open>
  Claim C6, as amended. Let the token endpoint answer with a JSON object. If both
  \<open>access_token\<close> and \<open>refresh_token\<close> are string members of it, \<open>perform_token_refresh\<close>
  and \<open>get_token_from_authorization_code\<close> return \<open>true\<close> and both token fields of the
  session are overwritten from the answer. If either member is absent they return
  \<open>false\<close> and the session is unchanged. They return \<open>true\<close> in no other case.
\<close>

theorem token_exchange_wholesale:
  assumes "easy_init_ok w" and "transfers w = t # ts" and "curl_error t = None"
      and "P (concat (body_chunks t)) = Some (JObject ms)"
  shows "(map_of ms ''access_token'' = Some (JString at) \<and>
          map_of ms ''refresh_token'' = Some (JString rt) \<longrightarrow>
            fst (perform_token_refresh P c w) = Inr True \<and>
            fst (snd (perform_token_refresh P c w)) = c\<lparr>access_token := at, refresh_token := rt\<rparr> \<and>
            fst (get_token_from_authorization_code P code c w) = Inr True \<and>
            fst (snd (get_token_from_authorization_code P code c w)) =
              c\<lparr>access_token := at, refresh_token := rt\<rparr>) \<and>
         (map_of ms ''access_token'' = None \<or> map_of ms ''refresh_token'' = None \<longrightarrow>
            fst (perform_token_refresh P c w) = Inr False \<and>
            fst (snd (perform_token_refresh P c w)) = c \<and>
            fst (get_token_from_authorization_code P code c w) = Inr False \<and>
            fst (snd (get_token_from_authorization_code P code c w)) = c) \<and>
         (fst (perform_token_refresh P c w) = Inr True \<or>
          fst (get_token_from_authorization_code P code c w) = Inr True \<longrightarrow>
            (\<exists>a r. map_of ms ''access_token'' = Some (JString a) \<and>
                   map_of ms ''refresh_token'' = Some (JString r)))"
proof -
  have doc: "Parse P JNull (concat (body_chunks t)) = JObject ms"
    using assms(4) by (simp add: Parse_def)
  note r = perform_token_refresh_plain [OF assms(1-3), of P c, unfolded doc]
  note g = get_token_plain [OF assms(1-3), of P code c, unfolded doc]
  have a: "map_of ms ''access_token'' = Some (JString at) \<and>
           map_of ms ''refresh_token'' = Some (JString rt) \<longrightarrow>
             save_tokens_from_response (JObject ms) c =
               (Inr True, c\<lparr>access_token := at, refresh_token := rt\<rparr>)"
    using save_tokens_both [of ms at rt c] by blast
  have b: "map_of ms ''access_token'' = None \<or> map_of ms ''refresh_token'' = None \<longrightarrow>
            save_tokens_from_response (JObject ms) c = (Inr False, c)"
    using save_tokens_absent [of ms c] by blast
  have d: "fst (save_tokens_from_response (JObject ms) c) = Inr True \<longrightarrow>
             (\<exists>a r. map_of ms ''access_token'' = Some (JString a) \<and>
                    map_of ms ''refresh_token'' = Some (JString r))"
    using save_tokens_true [of ms c] by blast
  show ?thesis using r g a b d by auto
qed

text \<open>
  An answer that is not a JSON object (here the HTML page of a gateway error) has
  neither member, and the call does not return \<open>false\<close>: \<open>HasMember\<close> is applied to a
  document that is not an object.
\<close>

theorem token_exchange_wholesale_witness:
  "transfers (example_world [json_reply 200 ''{\"access_token\":\"A1\",\"refresh_token\":\"R1\"}'']) =
     [json_reply 200 ''{\"access_token\":\"A1\",\"refresh_token\":\"R1\"}''] \<and>
   example_parse (concat (body_chunks (json_reply 200 ''{\"access_token\":\"A1\",\"refresh_token\":\"R1\"}''))) =
     Some (JObject [(''access_token'', JString ''A1''), (''refresh_token'', JString ''R1'')]) \<and>
   fst (perform_token_refresh example_parse example_client
          (example_world [json_reply 200 ''{\"access_token\":\"A1\",\"refresh_token\":\"R1\"}''])) = Inr True \<and>
   fst (snd (perform_token_refresh example_parse example_client
          (example_world [json_reply 200 ''{\"access_token\":\"A1\",\"refresh_token\":\"R1\"}'']))) =
     example_client\<lparr>access_token := ''A1'', refresh_token := ''R1''\<rparr>"
  using token_exchange_wholesale
    [of "example_world [json_reply 200 ''{\"access_token\":\"A1\",\"refresh_token\":\"R1\"}'']"
        "json_reply 200 ''{\"access_token\":\"A1\",\"refresh_token\":\"R1\"}''" "[]" example_parse
        "[(''access_token'', JString ''A1''), (''refresh_token'', JString ''R1'')]"
        "''A1''" "''R1''" example_client "[]"]
  by (simp add: example_world_def json_reply_def example_parse_def)

theorem token_exchange_not_an_object:
  "fst (perform_token_refresh example_parse example_client
          (example_world [json_reply 502 ''<html>Bad Gateway</html>''])) = Inl RapidjsonAssert"
  by (simp add: eval_defs)

section \<open>The error member of a poll response\<close>

lemma loop_unfold_round:
  assumes "sint (steady_clock_now w) < sint t_end" and "easy_init_ok w" and "transfers w = t # ts"
      and "curl_error t = None"
  shows "device_flow_loop P params response t_end c w =
     (let w1 = snd (snd (json_request P response device_flow_authorize_path params GET False c w));
          response1 = Parse P response (concat (body_chunks t)) in
        (case HasMember response1 ''code'' of
           Inl e \<Rightarrow> (Inl e, c, w1)
         | Inr has_code \<Rightarrow>
             (if has_code then
                (case MemberString response1 ''code'' of
                   Inl e \<Rightarrow> (Inl e, c, w1)
                 | Inr code \<Rightarrow>
                     (case get_token_from_authorization_code P code c w1 of
                        (Inl e, c2, w2) \<Rightarrow> (Inl e, c2, w2)
                      | (Inr saved, c2, w2) \<Rightarrow> (Inr 0, clear_device_flow_strings c2, w2)))
              else
                (case MemberString response1 ''error'' of
                   Inl e \<Rightarrow> (Inl e, c, w1)
                 | Inr error_string \<Rightarrow>
                     (if error_string \<noteq> ''authorization_pending''
                        then (Inr 1, clear_device_flow_strings c, w1)
                      else device_flow_loop P params response1 t_end c
                             (sleep_for device_flow_authorize_wait_duration w1))))))"
proof -
  from json_request_plain [OF assms(2-4), of P response device_flow_authorize_path params GET c]
  obtain w1 where j: "json_request P response device_flow_authorize_path params GET False c w =
      (Inr (status t, Parse P response (concat (body_chunks t))), c, w1)" by blast
  show ?thesis
    by (subst device_flow_loop.simps) (simp add: assms(1) j Let_def)
qed



section \<open>The device-flow scratch fields\<close>

lemma device_flow_loop_outcome:
  "device_flow_loop P params response t_end c w = (Inr rc, c1, w1) \<Longrightarrow>
     ((rc = 0 \<or> rc = 1) \<and> device_flow_device_code c1 = [] \<and> device_flow_user_code c1 = []) \<or>
     (rc = - 2 \<and> c1 = c)"
proof (induction P params response t_end c w rule: device_flow_loop.induct)
  case (1 P params response t_end c w)
  show ?case
  proof (cases "sint (steady_clock_now w) < sint t_end")
    case False
    with "1.prems" [unfolded device_flow_loop.simps [of P params response t_end c w]]
    show ?thesis by simp
  next
    case True
    obtain res c2 w2 where j: "json_request P response device_flow_authorize_path params GET False c w = (res, c2, w2)"
      by (metis prod_cases3)
    from json_request_no_refresh_frame [OF j] have c2: "c2 = c" by simp
    show ?thesis
    proof (cases res)
      case (Inl e)
      with "1.prems" [unfolded device_flow_loop.simps [of P params response t_end c w]] True j
      show ?thesis by simp
    next
      case (Inr rd)
      obtain rc2 response1 where rd: "rd = (rc2, response1)" by (cases rd)
      have u: "(case HasMember response1 ''code'' of
                  Inl e \<Rightarrow> (Inl e, c, w2)
                | Inr has_code \<Rightarrow>
                    (if has_code then
                       (case MemberString response1 ''code'' of
                          Inl e \<Rightarrow> (Inl e, c, w2)
                        | Inr code \<Rightarrow>
                            (case get_token_from_authorization_code P code c w2 of
                               (Inl e, c3, w3) \<Rightarrow> (Inl e, c3, w3)
                             | (Inr saved, c3, w3) \<Rightarrow> (Inr 0, clear_device_flow_strings c3, w3)))
                     else
                       (case MemberString response1 ''error'' of
                          Inl e \<Rightarrow> (Inl e, c, w2)
                        | Inr error_string \<Rightarrow>
                            (if error_string \<noteq> ''authorization_pending''
                               then (Inr 1, clear_device_flow_strings c, w2)
                             else device_flow_loop P params response1 t_end c
                                    (sleep_for device_flow_authorize_wait_duration w2))))) =
               (Inr rc, c1, w1)"
        using "1.prems" [unfolded device_flow_loop.simps [of P params response t_end c w]]
          True j Inr rd c2 by simp
      show ?thesis
      proof (cases "HasMember response1 ''code''")
        case (Inl e)
        with u show ?thesis by simp
      next
        case hm: (Inr has_code)
        show ?thesis
        proof (cases has_code)
          case True
          show ?thesis
          proof (cases "MemberString response1 ''code''")
            case (Inl e)
            with u hm True show ?thesis by simp
          next
            case ms: (Inr code)
            obtain g c3 w3 where gt: "get_token_from_authorization_code P code c w2 = (g, c3, w3)"
              by (metis prod_cases3)
            from u hm True ms gt show ?thesis
              by (cases g) (auto simp: clear_device_flow_strings_def)
          qed
        next
          case False
          show ?thesis
          proof (cases "MemberString response1 ''error''")
            case (Inl e)
            with u hm False show ?thesis by simp
          next
            case ms: (Inr error_string)
            show ?thesis
            proof (cases "error_string \<noteq> ''authorization_pending''")
              case True
              with u hm False ms show ?thesis by (auto simp: clear_device_flow_strings_def)
            next
              case pending: False
              from u hm False ms pending
              have rec: "device_flow_loop P params response1 t_end c
                           (sleep_for device_flow_authorize_wait_duration w2) = (Inr rc, c1, w1)"
                by simp
              have j': "(res, c, w2) =
                  json_request P response device_flow_authorize_path params GET False c w"
                using j c2 by simp
              have rd': "(rc2, response1) = rd" using rd by simp
              from "1.IH" [OF \<open>sint (steady_clock_now w) < sint t_end\<close> j' Inr rd' refl hm False ms pending rec]
              show ?thesis .
            qed
          qed
        qed
      qed
    qed
  qed
qed

text \<open>
  Claim C4, as amended. When \<open>device_flow_authorize\<close> returns, its result is one of
  \<open>0\<close>, \<open>1\<close>, \<open>-2\<close> and \<open>-1\<close>. On success (\<open>0\<close>) and on denial (\<open>1\<close>) both device-flow
  scratch fields are empty. On a timeout (\<open>-2\<close>) the session is the one the call started
  with, the device code still in it, so that the caller can call again.
\<close>

theorem device_flow_authorize_scratch_fields:
  assumes "device_flow_authorize P timeout c w = (Inr rc, c1, w1)"
  shows "(rc = 0 \<or> rc = 1 \<longrightarrow>
            device_flow_device_code c1 = [] \<and> device_flow_user_code c1 = []) \<and>
         (rc = - 2 \<longrightarrow> c1 = c \<and> device_flow_device_code c1 \<noteq> []) \<and>
         (rc = - 1 \<longrightarrow> c1 = c \<and> device_flow_device_code c1 = []) \<and>
         (rc = 0 \<or> rc = 1 \<or> rc = - 2 \<or> rc = - 1)"
proof (cases "device_flow_device_code c = []")
  case True
  with assms show ?thesis by (simp add: device_flow_authorize_def)
next
  case False
  with assms have "device_flow_loop P
      [param ''client_id'' (client_id c), param ''device_code'' (device_flow_device_code c)]
      JNull (steady_clock_now w + timeout * 1000000000) c w = (Inr rc, c1, w1)"
    by (simp add: device_flow_authorize_def Let_def)
  from device_flow_loop_outcome [OF this] False show ?thesis by auto
qed

theorem device_flow_authorize_scratch_fields_witness:
  "fst (device_flow_authorize example_parse 300 pending_client
          (example_world [json_reply 400 ''{\"error\":\"access_denied\"}''])) = Inr 1 \<and>
   device_flow_device_code (fst (snd (device_flow_authorize example_parse 300 pending_client
          (example_world [json_reply 400 ''{\"error\":\"access_denied\"}''])))) = [] \<and>
   device_flow_user_code (fst (snd (device_flow_authorize example_parse 300 pending_client
          (example_world [json_reply 400 ''{\"error\":\"access_denied\"}''])))) = []"
proof -
  let ?X = "device_flow_authorize example_parse 300 pending_client
              (example_world [json_reply 400 ''{\"error\":\"access_denied\"}''])"
  have f: "fst ?X = Inr 1"
    by (simp add: eval_defs pending_client_def device_flow_loop.simps)
  from device_flow_authorize_scratch_fields [OF triple_eqI [OF f]] f show ?thesis by simp
qed

text \<open>
  A timeout does not clear the fields: with a timeout of three seconds and a server that
  answers \<open>authorization_pending\<close>, the call polls once, sleeps five seconds and returns
  \<open>-2\<close> with the device code still stored.
\<close>

theorem timeout_keeps_device_code:
  "fst (device_flow_authorize example_parse 3 pending_client
          (example_world [json_reply 400 ''{\"error\":\"authorization_pending\"}''])) = Inr (- 2) \<and>
   device_flow_device_code (fst (snd (device_flow_authorize example_parse 3 pending_client
          (example_world [json_reply 400 ''{\"error\":\"authorization_pending\"}''])))) = ''dc'' \<and>
   length (net_log (snd (snd (device_flow_authorize example_parse 3 pending_client
          (example_world [json_reply 400 ''{\"error\":\"authorization_pending\"}'']))))) = 1"
  by (simp add: eval_defs pending_client_def device_flow_loop.simps)

section \<open>Polling until the code arrives\<close>

lemma percent_encode_unreserved: "list_all is_unreserved s \<Longrightarrow> percent_encode s = s"
  by (induction s) (simp_all add: percent_encode_def escape_char_def)

lemma poll_request_eq:
  "request_of device_flow_authorize_path
     [param ''client_id'' (client_id c), param ''device_code'' (device_flow_device_code c)] GET =
   poll_request c"
  by (simp add: request_of_def poll_request_def param_def base_uri_def device_flow_authorize_path_def)

lemma exchange_request_eq:
  "request_of oauth_token_path
     [param ''grant_type'' ''authorization_code'', param ''client_id'' (client_id c),
      param ''client_secret'' (client_secret c), param ''redirect_uri'' (redirect_uri c),
      param ''code'' code] POST =
   exchange_request c code"
proof -
  have "percent_encode ''authorization_code'' = ''authorization_code''"
    by (rule percent_encode_unreserved) (simp add: is_unreserved_def)
  then show ?thesis
    by (simp add: request_of_def exchange_request_def param_def base_uri_def oauth_token_path_def)
qed

lemma spaced_poll_times: "spaced device_flow_authorize_wait_duration (poll_times t0 ts)"
proof (induction ts arbitrary: t0)
  case Nil
  show ?case by simp
next
  case (Cons t ts)
  show ?case using Cons.IH [of "t0 + elapsed t + device_flow_authorize_wait_duration"]
    by (cases ts) simp_all
qed

lemma length_poll_times: "length (poll_times t0 ts) = length ts"
  by (induction ts arbitrary: t0) simp_all

lemma poll_times_append:
  "poll_times t0 (ts @ [t]) = poll_times t0 ts @ [t0 + waiting_time ts]"
  by (induction ts arbitrary: t0) (simp_all add: waiting_time_def add.assoc)

lemma pending_replyD:
  assumes "pending_reply P t"
  shows "curl_error t = None \<and>
         (\<exists>ms. P (concat (body_chunks t)) = Some (JObject ms) \<and> map_of ms ''code'' = None \<and>
               map_of ms ''error'' = Some (JString ''authorization_pending''))"
  using assms by (auto simp: pending_reply_def split: option.splits json.splits)

lemma code_replyD:
  assumes "code_reply P code t"
  shows "curl_error t = None \<and>
         (\<exists>ms. P (concat (body_chunks t)) = Some (JObject ms) \<and> map_of ms ''code'' = Some (JString code))"
  using assms by (auto simp: code_reply_def split: option.splits json.splits)

lemma token_replyD:
  assumes "token_reply P at rt t"
  shows "curl_error t = None \<and>
         (\<exists>ms. P (concat (body_chunks t)) = Some (JObject ms) \<and>
               map_of ms ''access_token'' = Some (JString at) \<and>
               map_of ms ''refresh_token'' = Some (JString rt))"
  using assms by (auto simp: token_reply_def split: option.splits json.splits)

lemma loop_pending_rounds:
  assumes "list_all (pending_reply P) pend"
      and "easy_init_ok w" and "transfers w = pend @ rest"
      and "clock w + waiting_time pend < te" and "te < 2 ^ 63"
  shows "\<exists>response1 w1.
           device_flow_loop P params response (word_of_nat te) c w =
             device_flow_loop P params response1 (word_of_nat te) c w1 \<and>
           easy_init_ok w1 \<and> transfers w1 = rest \<and> clock w1 = clock w + waiting_time pend \<and>
           net_log w1 = net_log w @
             map (\<lambda>tm. (request_of device_flow_authorize_path params GET)\<lparr>req_time := tm\<rparr>)
               (poll_times (clock w) pend)"
  using assms
proof (induction pend arbitrary: w response)
  case Nil
  then show ?case by (auto simp: waiting_time_def)
next
  case (Cons t ts)
  from Cons.prems(1) have pt: "pending_reply P t" and pts: "list_all (pending_reply P) ts" by simp_all
  from pending_replyD [OF pt] obtain ms where ok: "curl_error t = None"
    and doc: "P (concat (body_chunks t)) = Some (JObject ms)"
    and nocode: "map_of ms ''code'' = None"
    and err: "map_of ms ''error'' = Some (JString ''authorization_pending'')" by blast
  from Cons.prems(3) have tr: "transfers w = t # (ts @ rest)" by simp
  from Cons.prems(4) have "clock w < te" by simp
  from before_deadline [OF this Cons.prems(5)]
  have now: "sint (steady_clock_now w) < sint (word_of_nat te :: 64 word)" .
  from json_request_plain [OF Cons.prems(2) tr ok, of P response device_flow_authorize_path params GET c]
  obtain w1 where j: "json_request P response device_flow_authorize_path params GET False c w =
        (Inr (status t, Parse P response (concat (body_chunks t))), c, w1)"
    and w1: "transfers w1 = ts @ rest"
      "net_log w1 = net_log w @ [(request_of device_flow_authorize_path params GET)\<lparr>req_time := clock w\<rparr>]"
      "clock w1 = clock w + elapsed t" "easy_init_ok w1" by blast
  let ?w2 = "sleep_for device_flow_authorize_wait_duration w1"
  have step: "device_flow_loop P params response (word_of_nat te) c w =
              device_flow_loop P params (JObject ms) (word_of_nat te) c ?w2"
    using nocode err j doc
    by (simp add: loop_unfold_round [OF now Cons.prems(2) tr ok] Parse_def Let_def HasMember_def
          MemberString_def Member_def GetString_def)
  have w2: "easy_init_ok ?w2" "transfers ?w2 = ts @ rest"
    "clock ?w2 = clock w + elapsed t + device_flow_authorize_wait_duration"
    "net_log ?w2 = net_log w @ [(request_of device_flow_authorize_path params GET)\<lparr>req_time := clock w\<rparr>]"
    using w1 by (simp_all add: sleep_for_def)
  have t2: "clock ?w2 + waiting_time ts < te"
    using Cons.prems(4) w2(3) by (simp add: waiting_time_def)
  from Cons.IH [OF pts w2(1) w2(2) t2 Cons.prems(5), of "JObject ms"]
  obtain response1 w3 where
    r: "device_flow_loop P params (JObject ms) (word_of_nat te) c ?w2 = device_flow_loop P params response1 (word_of_nat te) c w3"
    and w3: "easy_init_ok w3" "transfers w3 = rest" "clock w3 = clock ?w2 + waiting_time ts"
      "net_log w3 = net_log ?w2 @
         map (\<lambda>tm. (request_of device_flow_authorize_path params GET)\<lparr>req_time := tm\<rparr>)
           (poll_times (clock ?w2) ts)" by blast
  have "device_flow_loop P params response (word_of_nat te) c w = device_flow_loop P params response1 (word_of_nat te) c w3"
    using step r by simp
  moreover have "clock w3 = clock w + waiting_time (t # ts)"
    using w3(3) w2(3) by (simp add: waiting_time_def)
  moreover have "net_log w3 = net_log w @
         map (\<lambda>tm. (request_of device_flow_authorize_path params GET)\<lparr>req_time := tm\<rparr>)
           (poll_times (clock w) (t # ts))"
    using w3(4) w2(3) w2(4) by simp
  ultimately show ?case using w3(1) w3(2) by blast
qed

lemma get_token_run:
  assumes "easy_init_ok w" and "transfers w = t # ts" and "token_reply P at rt t"
  shows "\<exists>w1. get_token_from_authorization_code P code c w =
                (Inr True, c\<lparr>access_token := at, refresh_token := rt\<rparr>, w1) \<and>
              transfers w1 = ts \<and>
              net_log w1 = net_log w @ [(exchange_request c code)\<lparr>req_time := clock w\<rparr>]"
proof -
  from token_replyD [OF assms(3)] obtain ms where ok: "curl_error t = None"
    and doc: "P (concat (body_chunks t)) = Some (JObject ms)"
    and at: "map_of ms ''access_token'' = Some (JString at)"
    and rt: "map_of ms ''refresh_token'' = Some (JString rt)" by blast
  let ?ps = "[param ''grant_type'' ''authorization_code'', param ''client_id'' (client_id c),
              param ''client_secret'' (client_secret c), param ''redirect_uri'' (redirect_uri c),
              param ''code'' code]"
  from json_request_plain [OF assms(1,2) ok, of P JNull oauth_token_path ?ps POST c]
  obtain w1 where j: "json_request P JNull oauth_token_path ?ps POST False c w =
      (Inr (status t, Parse P JNull (concat (body_chunks t))), c, w1)"
    and w1: "transfers w1 = ts"
      "net_log w1 = net_log w @ [(request_of oauth_token_path ?ps POST)\<lparr>req_time := clock w\<rparr>]"
    by blast
  have "get_token_from_authorization_code P code c w =
          (Inr True, c\<lparr>access_token := at, refresh_token := rt\<rparr>, w1)"
    using j doc save_tokens_both [OF at rt, of c]
    by (simp add: get_token_from_authorization_code_def Parse_def)
  with w1 show ?thesis by (auto simp: exchange_request_eq)
qed

lemma loop_code_round:
  assumes "easy_init_ok w" and "transfers w = code_t # tok_t # rest"
      and "code_reply P code code_t" and "token_reply P at rt tok_t"
      and "clock w < te" and "te < 2 ^ 63"
  shows "\<exists>w3. device_flow_loop P params response (word_of_nat te) c w =
                (Inr 0, clear_device_flow_strings (c\<lparr>access_token := at, refresh_token := rt\<rparr>), w3) \<and>
              transfers w3 = rest \<and>
              net_log w3 = net_log w @
                [(request_of device_flow_authorize_path params GET)\<lparr>req_time := clock w\<rparr>,
                 (exchange_request c code)\<lparr>req_time := clock w + elapsed code_t\<rparr>]"
proof -
  from code_replyD [OF assms(3)] obtain ms where ok: "curl_error code_t = None"
    and doc: "P (concat (body_chunks code_t)) = Some (JObject ms)"
    and cd: "map_of ms ''code'' = Some (JString code)" by blast
  from before_deadline [OF assms(5,6)]
  have now: "sint (steady_clock_now w) < sint (word_of_nat te :: 64 word)" .
  from json_request_plain [OF assms(1,2) ok, of P response device_flow_authorize_path params GET c]
  obtain w1 where j: "json_request P response device_flow_authorize_path params GET False c w =
        (Inr (status code_t, Parse P response (concat (body_chunks code_t))), c, w1)"
    and w1: "transfers w1 = tok_t # rest"
      "net_log w1 = net_log w @ [(request_of device_flow_authorize_path params GET)\<lparr>req_time := clock w\<rparr>]"
      "clock w1 = clock w + elapsed code_t" "easy_init_ok w1" by blast
  from get_token_run [OF w1(4) w1(1) assms(4), of code c]
  obtain w3 where g: "get_token_from_authorization_code P code c w1 =
                (Inr True, c\<lparr>access_token := at, refresh_token := rt\<rparr>, w3)"
    and w3: "transfers w3 = rest"
      "net_log w3 = net_log w1 @ [(exchange_request c code)\<lparr>req_time := clock w1\<rparr>]" by blast
  have "device_flow_loop P params response (word_of_nat te) c w =
          (Inr 0, clear_device_flow_strings (c\<lparr>access_token := at, refresh_token := rt\<rparr>), w3)"
    using cd j doc g
    by (simp add: loop_unfold_round [OF now assms(1,2) ok] Parse_def Let_def HasMember_def
          MemberString_def Member_def GetString_def)
  with w1 w3 show ?thesis by simp
qed

text \<open>
  Claim C5, as amended. Let the device code be stored, let the authorize endpoint answer
  \<open>authorization_pending\<close> \<open>N\<close> times (the transfers \<open>pend\<close>) and then with a code, let
  the token endpoint answer the exchange with both tokens, let the timeout exceed the
  time the \<open>N\<close> pending rounds take, and let the deadline, the time of the call plus the
  timeout, be below \<open>2\<^sup>6\<^sup>3\<close> nanoseconds. Then \<open>device_flow_authorize\<close> returns \<open>0\<close>; it has
  sent exactly \<open>N + 1\<close> polls, consecutive ones at least five seconds apart, and after
  them one POST to the token endpoint with the grant \<open>authorization_code\<close> and the code
  received; both token fields hold the tokens of that exchange and the scratch fields are
  empty.
\<close>

theorem device_flow_authorize_polls:
  assumes "device_flow_device_code c \<noteq> []" and "easy_init_ok w"
      and "transfers w = pend @ code_t # tok_t # rest"
      and "list_all (pending_reply P) pend"
      and "code_reply P code code_t" and "token_reply P at rt tok_t"
      and "waiting_time pend < unat timeout * 1000000000"
      and "clock w + unat timeout * 1000000000 < 2 ^ 63"
  shows "fst (device_flow_authorize P timeout c w) = Inr 0 \<and>
         fst (snd (device_flow_authorize P timeout c w)) =
           c\<lparr>access_token := at, refresh_token := rt, device_flow_device_code := [],
             device_flow_user_code := []\<rparr> \<and>
         net_log (snd (snd (device_flow_authorize P timeout c w))) =
           net_log w @
           map (\<lambda>tm. (poll_request c)\<lparr>req_time := tm\<rparr>) (poll_times (clock w) (pend @ [code_t])) @
           [(exchange_request c code)\<lparr>req_time := clock w + waiting_time pend + elapsed code_t\<rparr>] \<and>
         length (poll_times (clock w) (pend @ [code_t])) = length pend + 1 \<and>
         spaced device_flow_authorize_wait_duration (poll_times (clock w) (pend @ [code_t])) \<and>
         transfers (snd (snd (device_flow_authorize P timeout c w))) = rest"
proof -
  let ?ps = "[param ''client_id'' (client_id c), param ''device_code'' (device_flow_device_code c)]"
  let ?te = "clock w + unat timeout * 1000000000"
  let ?t_end = "word_of_nat ?te :: 64 word"
  have tr: "transfers w = pend @ (code_t # tok_t # rest)" using assms(3) by simp
  have tm: "clock w + waiting_time pend < ?te"
    using assms(7) by simp
  from loop_pending_rounds [OF assms(4) assms(2) tr tm assms(8), of ?ps JNull c]
  obtain response1 w1 where
    l1: "device_flow_loop P ?ps JNull ?t_end c w = device_flow_loop P ?ps response1 ?t_end c w1"
    and w1: "easy_init_ok w1" "transfers w1 = code_t # tok_t # rest"
      "clock w1 = clock w + waiting_time pend"
      "net_log w1 = net_log w @
         map (\<lambda>tm. (request_of device_flow_authorize_path ?ps GET)\<lparr>req_time := tm\<rparr>)
           (poll_times (clock w) pend)" by blast
  have tm1: "clock w1 < ?te" using tm w1(3) by simp
  from loop_code_round [OF w1(1) w1(2) assms(5) assms(6) tm1 assms(8), of ?ps response1 c]
  obtain w3 where
    l2: "device_flow_loop P ?ps response1 ?t_end c w1 =
           (Inr 0, clear_device_flow_strings (c\<lparr>access_token := at, refresh_token := rt\<rparr>), w3)"
    and w3: "transfers w3 = rest"
      "net_log w3 = net_log w1 @
         [(request_of device_flow_authorize_path ?ps GET)\<lparr>req_time := clock w1\<rparr>,
          (exchange_request c code)\<lparr>req_time := clock w1 + elapsed code_t\<rparr>]" by blast
  have "device_flow_authorize P timeout c w = device_flow_loop P ?ps JNull ?t_end c w"
    using assms(1) by (simp only: device_flow_authorize_def Let_def deadline_in_range) simp
  with l1 l2 have run: "device_flow_authorize P timeout c w =
           (Inr 0, clear_device_flow_strings (c\<lparr>access_token := at, refresh_token := rt\<rparr>), w3)"
    by simp
  have log: "net_log w3 = net_log w @
           map (\<lambda>tm. (poll_request c)\<lparr>req_time := tm\<rparr>) (poll_times (clock w) (pend @ [code_t])) @
           [(exchange_request c code)\<lparr>req_time := clock w + waiting_time pend + elapsed code_t\<rparr>]"
    using w3(2) w1(3) w1(4) by (simp add: poll_times_append poll_request_eq)
  show ?thesis
    using run log w3(1) spaced_poll_times [of "clock w" "pend @ [code_t]"]
    by (simp add: length_poll_times clear_device_flow_strings_def)
qed

theorem device_flow_authorize_polls_witness:
  "fst (device_flow_authorize example_parse 300 pending_client (example_world two_pending_then_code)) = Inr 0 \<and>
   access_token (fst (snd (device_flow_authorize example_parse 300 pending_client
      (example_world two_pending_then_code)))) = ''A1'' \<and>
   refresh_token (fst (snd (device_flow_authorize example_parse 300 pending_client
      (example_world two_pending_then_code)))) = ''R1'' \<and>
   map req_time (net_log (snd (snd (device_flow_authorize example_parse 300 pending_client
      (example_world two_pending_then_code))))) = [0, 5001000000, 10002000000, 10003000000] \<and>
   transfers (snd (snd (device_flow_authorize example_parse 300 pending_client
      (example_world two_pending_then_code)))) = []"
  using device_flow_authorize_polls
    [where c = pending_client and w = "example_world two_pending_then_code"
       and pend = "[json_reply 400 ''{\"error\":\"authorization_pending\"}'',
                    json_reply 400 ''{\"error\":\"authorization_pending\"}'']"
       and code_t = "json_reply 200 ''{\"code\":\"c0de\"}''"
       and tok_t = "json_reply 200 ''{\"access_token\":\"A1\",\"refresh_token\":\"R1\"}''"
       and rest = "[]" and P = example_parse and code = "''c0de''" and at = "''A1''" and rt = "''R1''"
       and timeout = 300]
  by (simp add: two_pending_then_code_def example_world_def json_reply_def example_parse_def
        pending_client_def example_client_def new_client_def pending_reply_def code_reply_def
        token_reply_def waiting_time_def device_flow_authorize_wait_duration_def)

text \<open>
  Two runs in which the server sends the code at the first poll. In the first the token
  endpoint refuses the exchange: \<open>device_flow_authorize\<close> does not look at what
  \<open>get_token_from_authorization_code\<close> returns, so the call returns \<open>0\<close>, after its poll
  and the POST of the exchange, with the tokens the session had before. In the second the
  timeout is \<open>10\<^sup>1\<^sup>0\<close> seconds: in nanoseconds that is beyond \<open>2\<^sup>6\<^sup>3\<close>, the deadline wraps to
  a time before the call, and the call returns \<open>-2\<close> without a poll.
\<close>

theorem exchange_refused_or_deadline_wrapped:
  "fst (device_flow_authorize example_parse 300 pending_client
          (example_world code_then_refusal)) = Inr 0 \<and>
   access_token (fst (snd (device_flow_authorize example_parse 300 pending_client
          (example_world code_then_refusal)))) = ''A0'' \<and>
   refresh_token (fst (snd (device_flow_authorize example_parse 300 pending_client
          (example_world code_then_refusal)))) = ''R0'' \<and>
   map req_url (net_log (snd (snd (device_flow_authorize example_parse 300 pending_client
          (example_world code_then_refusal))))) =
     [''http://localhost:3000/oauth/device_flow_authorize?client_id=id&device_code=dc'',
      ''http://localhost:3000/oauth/token''] \<and>
   fst (device_flow_authorize example_parse 10000000000 pending_client
          (example_world code_then_tokens)) = Inr (- 2) \<and>
   net_log (snd (snd (device_flow_authorize example_parse 10000000000 pending_client
          (example_world code_then_tokens)))) = []"
  by (simp add: eval_defs pending_client_def code_then_refusal_def code_then_tokens_def
        device_flow_loop.simps percent_encode_def escape_char_def is_unreserved_def)

section \<open>One refresh, one retry\<close>

lemma refresh_request_eq:
  "request_of oauth_token_path
     [param ''grant_type'' ''refresh_token'', param ''client_id'' (client_id c),
      param ''client_secret'' (client_secret c), param ''refresh_token'' (refresh_token c)] POST =
   refresh_request c"
proof -
  have "percent_encode ''refresh_token'' = ''refresh_token''"
    by (rule percent_encode_unreserved) (simp add: is_unreserved_def)
  then show ?thesis
    by (simp add: request_of_def refresh_request_def param_def base_uri_def oauth_token_path_def)
qed

lemma perform_token_refresh_log:
  assumes "perform_token_refresh P c w = (res, c1, w1)" and "easy_init_ok w"
  shows "net_log w1 = net_log w @ [(refresh_request c)\<lparr>req_time := clock w\<rparr>] \<and> easy_init_ok w1"
proof -
  let ?ps = "[param ''grant_type'' ''refresh_token'', param ''client_id'' (client_id c),
              param ''client_secret'' (client_secret c), param ''refresh_token'' (refresh_token c)]"
  obtain rr r2 ps2 w2 where rq: "raw_request new_request_state oauth_token_path ?ps POST w = (rr, r2, ps2, w2)"
    by (metis prod_cases4)
  from assms(1) rq have "w1 = w2"
    by (auto simp: perform_token_refresh.simps json_request_no_refresh split: sum.splits prod.splits)
  with raw_request_log [OF rq assms(2)] raw_request_frame [OF rq] assms(2) show ?thesis
    by (simp add: refresh_request_eq)
qed

lemma request_of_cong:
  "param_string ps1 = param_string ps \<Longrightarrow> request_of path ps1 m = request_of path ps m"
  by (simp add: request_of_def)

lemma quad_eqI: "fst x = a \<Longrightarrow> x = (a, fst (snd x), fst (snd (snd x)), snd (snd (snd x)))"
  by (cases x) auto

text \<open>
  Claim C1, as amended. Let a call with \<open>refresh = true\<close> be answered first with a status
  other than 200 and the error document \<open>OAuth2 authorization failed\<close>, and let the token
  refresh then succeed. The request state is reset and the request is sent once more,
  with the parameters as first sent. The call returns what that second round trip
  yields, unless it again has a status other than 200 and the same error document: then
  the call ends with \<open>InvalidTokenException\<close>. The request itself is sent exactly twice;
  between the two the refresh sends its own POST to the token endpoint, so three
  requests reach the network.
\<close>

theorem refresh_and_retry_once:
  assumes "easy_init_ok w"
      and "raw_request rstate path params method w = (Inr rc, r1, ps1, w1)"
      and "rc \<noteq> 200" and "document_has_error P r1 oauth_auth_failed_response"
      and "perform_token_refresh P c w1 = (Inr True, c2, w2)"
  shows "raw_request_optional_refresh P rstate path params method True c w =
           (case raw_request (reset r1) path ps1 method w2 of
              (Inl e, r3, ps3, w3) \<Rightarrow> (Inl e, r3, ps3, c2, w3)
            | (Inr rc2, r3, ps3, w3) \<Rightarrow>
                (if rc2 = 200 \<or> \<not> document_has_error P r3 oauth_auth_failed_response
                   then (Inr rc2, r3, ps3, c2, w3)
                 else (Inl InvalidTokenException, r3, ps3, c2, w3))) \<and>
         net_log (snd (snd (snd (snd (raw_request_optional_refresh P rstate path params method True c w))))) =
           net_log w @
           [(request_of path params method)\<lparr>req_time := clock w\<rparr>,
            (refresh_request c)\<lparr>req_time := clock w1\<rparr>,
            (request_of path params method)\<lparr>req_time := clock w2\<rparr>]"
proof -
  have run: "raw_request_optional_refresh P rstate path params method True c w =
           (case raw_request (reset r1) path ps1 method w2 of
              (Inl e, r3, ps3, w3) \<Rightarrow> (Inl e, r3, ps3, c2, w3)
            | (Inr rc2, r3, ps3, w3) \<Rightarrow>
                (if rc2 = 200 \<or> \<not> document_has_error P r3 oauth_auth_failed_response
                   then (Inr rc2, r3, ps3, c2, w3)
                 else (Inl InvalidTokenException, r3, ps3, c2, w3)))"
    using assms(2-5) by (simp add: raw_request_optional_refresh.simps)
  obtain res3 r3 ps3 w3 where rq: "raw_request (reset r1) path ps1 method w2 = (res3, r3, ps3, w3)"
    by (metis prod_cases4)
  note f1 = raw_request_frame [OF assms(2)] and l1 = raw_request_log [OF assms(2) assms(1)]
  from f1 assms(1) have i1: "easy_init_ok w1" by simp
  note l2 = perform_token_refresh_log [OF assms(5) i1]
  then have i2: "easy_init_ok w2" by simp
  note l3 = raw_request_log [OF rq i2]
  from f1 have "param_string ps1 = param_string params" by simp
  then have rqe: "request_of path ps1 method = request_of path params method"
    by (rule request_of_cong)
  have w3: "snd (snd (snd (snd (raw_request_optional_refresh P rstate path params method True c w)))) = w3"
  proof (cases res3)
    case (Inl e)
    then show ?thesis by (simp add: run rq)
  next
    case (Inr rc2)
    then show ?thesis by (simp add: run rq)
  qed
  have "net_log w3 = net_log w @
           [(request_of path params method)\<lparr>req_time := clock w\<rparr>,
            (refresh_request c)\<lparr>req_time := clock w1\<rparr>,
            (request_of path params method)\<lparr>req_time := clock w2\<rparr>]"
    using l1 l2 l3 rqe by simp
  with w3 run show ?thesis by (simp only:)
qed

theorem refresh_and_retry_once_witness:
  "fst (raw_request_optional_refresh example_parse new_request_state ''/api/v1/user'' user_params GET
          True example_client (example_world retry_script)) = Inr 200 \<and>
   string_output (fst (snd (raw_request_optional_refresh example_parse new_request_state
          ''/api/v1/user'' user_params GET True example_client (example_world retry_script)))) =
     ''{\"name\":\"x\"}'' \<and>
   map req_url (net_log (snd (snd (snd (snd (raw_request_optional_refresh example_parse
          new_request_state ''/api/v1/user'' user_params GET True example_client
          (example_world retry_script))))))) =
     [''http://localhost:3000/api/v1/user?access_token=A0'', ''http://localhost:3000/oauth/token'',
      ''http://localhost:3000/api/v1/user?access_token=A0'']"
proof -
  let ?W = "example_world retry_script"
  let ?A = "raw_request new_request_state ''/api/v1/user'' user_params GET ?W"
  let ?B = "perform_token_refresh example_parse example_client (snd (snd (snd ?A)))"
  have i: "easy_init_ok ?W" by (simp add: example_world_def)
  have a1: "fst ?A = Inr 401" by (simp add: eval_defs retry_script_def user_params_def)
  have a2: "document_has_error example_parse (fst (snd ?A)) oauth_auth_failed_response"
    by (simp add: eval_defs retry_script_def user_params_def)
  have b1: "fst ?B = Inr True" by (simp add: eval_defs retry_script_def user_params_def)
  from refresh_and_retry_once [OF i quad_eqI [OF a1] _ a2 triple_eqI [OF b1]]
  show ?thesis
    by (simp add: eval_defs retry_script_def user_params_def request_of_def refresh_request_def percent_encode_def
          escape_char_def is_unreserved_def hex_digit_def)
qed

text \<open>
  When the retry is rejected like the first attempt, the second result is not returned,
  and the log holds three requests.
\<close>

theorem retry_rejected_again:
  "fst (raw_request_optional_refresh example_parse new_request_state ''/api/v1/user'' user_params GET
          True example_client (example_world rejected_twice_script)) = Inl InvalidTokenException \<and>
   length (net_log (snd (snd (snd (snd (raw_request_optional_refresh example_parse
          new_request_state ''/api/v1/user'' user_params GET True example_client
          (example_world rejected_twice_script))))))) = 3"
  by (simp add: eval_defs rejected_twice_script_def user_params_def)

text \<open>
  Claim C2, as amended. Let a call with \<open>refresh = true\<close> be answered first with a status
  other than 200 and the error document \<open>OAuth2 authorization failed\<close>. If the token
  refresh returns \<open>false\<close>, or if it returns \<open>true\<close> and the one retry is again answered
  with a status other than 200 and that error document, the call ends with
  \<open>InvalidTokenException\<close>. The request has then been sent once (refresh refused) or twice
  (retry rejected), never a third time; the only other request is the refresh's POST.
\<close>

theorem refresh_failure_invalid_token:
  assumes "easy_init_ok w"
      and "raw_request rstate path params method w = (Inr rc, r1, ps1, w1)"
      and "rc \<noteq> 200" and "document_has_error P r1 oauth_auth_failed_response"
      and "perform_token_refresh P c w1 = (Inr refreshed, c2, w2)"
      and "refreshed \<longrightarrow>
             raw_request (reset r1) path ps1 method w2 = (Inr rc2, r3, ps3, w3) \<and> rc2 \<noteq> 200 \<and>
             document_has_error P r3 oauth_auth_failed_response"
  shows "fst (raw_request_optional_refresh P rstate path params method True c w) =
           Inl InvalidTokenException \<and>
         net_log (snd (snd (snd (snd (raw_request_optional_refresh P rstate path params method True c w))))) =
           net_log w @
           [(request_of path params method)\<lparr>req_time := clock w\<rparr>,
            (refresh_request c)\<lparr>req_time := clock w1\<rparr>] @
           (if refreshed then [(request_of path params method)\<lparr>req_time := clock w2\<rparr>] else [])"
proof -
  note f1 = raw_request_frame [OF assms(2)] and l1 = raw_request_log [OF assms(2) assms(1)]
  from f1 assms(1) have i1: "easy_init_ok w1" by simp
  note l2 = perform_token_refresh_log [OF assms(5) i1]
  then have i2: "easy_init_ok w2" by simp
  show ?thesis
  proof (cases refreshed)
    case False
    have "raw_request_optional_refresh P rstate path params method True c w =
            (Inl InvalidTokenException, r1, ps1, c2, w2)"
      using assms(2-5) False by (simp add: raw_request_optional_refresh.simps)
    with l1 l2 False show ?thesis by simp
  next
    case True
    with assms(6) have rq: "raw_request (reset r1) path ps1 method w2 = (Inr rc2, r3, ps3, w3)"
      and bad: "rc2 \<noteq> 200" "document_has_error P r3 oauth_auth_failed_response" by simp_all
    note l3 = raw_request_log [OF rq i2]
    from f1 have "param_string ps1 = param_string params" by simp
    then have rqe: "request_of path ps1 method = request_of path params method"
      by (rule request_of_cong)
    have "raw_request_optional_refresh P rstate path params method True c w =
            (Inl InvalidTokenException, r3, ps3, c2, w3)"
      using assms(2-5) True rq bad by (simp add: raw_request_optional_refresh.simps)
    with l1 l2 l3 rqe True show ?thesis by simp
  qed
qed

theorem refresh_failure_invalid_token_witness:
  "fst (raw_request_optional_refresh example_parse new_request_state ''/api/v1/user'' user_params GET
          True example_client (example_world refresh_refused_script)) = Inl InvalidTokenException \<and>
   map req_url (net_log (snd (snd (snd (snd (raw_request_optional_refresh example_parse
          new_request_state ''/api/v1/user'' user_params GET True example_client
          (example_world refresh_refused_script))))))) =
     [''http://localhost:3000/api/v1/user?access_token=A0'', ''http://localhost:3000/oauth/token''] \<and>
   fst (raw_request_optional_refresh example_parse new_request_state ''/api/v1/user'' user_params GET
          True example_client (example_world rejected_twice_script)) = Inl InvalidTokenException \<and>
   map req_url (net_log (snd (snd (snd (snd (raw_request_optional_refresh example_parse
          new_request_state ''/api/v1/user'' user_params GET True example_client
          (example_world rejected_twice_script))))))) =
     [''http://localhost:3000/api/v1/user?access_token=A0'', ''http://localhost:3000/oauth/token'',
      ''http://localhost:3000/api/v1/user?access_token=A0'']"
proof -
  note ev = eval_defs user_params_def request_of_def refresh_request_def percent_encode_def
    escape_char_def is_unreserved_def hex_digit_def
  let ?W = "example_world refresh_refused_script"
  let ?A = "raw_request new_request_state ''/api/v1/user'' user_params GET ?W"
  let ?B = "perform_token_refresh example_parse example_client (snd (snd (snd ?A)))"
  have i: "easy_init_ok ?W" by (simp add: example_world_def)
  have a1: "fst ?A = Inr 401" by (simp add: ev refresh_refused_script_def)
  have a2: "document_has_error example_parse (fst (snd ?A)) oauth_auth_failed_response"
    by (simp add: ev refresh_refused_script_def)
  have b1: "fst ?B = Inr False" by (simp add: ev refresh_refused_script_def)
  have r: "False \<longrightarrow>
             raw_request (reset (fst (snd ?A))) ''/api/v1/user'' (fst (snd (snd ?A))) GET (snd (snd ?B)) =
               (Inr 0, new_request_state, [], ?W) \<and> (0::int) \<noteq> 200 \<and>
             document_has_error example_parse new_request_state oauth_auth_failed_response"
    by simp
  from refresh_failure_invalid_token [OF i quad_eqI [OF a1] _ a2 triple_eqI [OF b1] r]
  have p1: "fst (raw_request_optional_refresh example_parse new_request_state ''/api/v1/user''
          user_params GET True example_client ?W) = Inl InvalidTokenException \<and>
      map req_url (net_log (snd (snd (snd (snd (raw_request_optional_refresh example_parse
          new_request_state ''/api/v1/user'' user_params GET True example_client ?W)))))) =
     [''http://localhost:3000/api/v1/user?access_token=A0'', ''http://localhost:3000/oauth/token'']"
    by (simp add: ev refresh_refused_script_def)
  let ?V = "example_world rejected_twice_script"
  let ?D = "raw_request new_request_state ''/api/v1/user'' user_params GET ?V"
  let ?E = "perform_token_refresh example_parse example_client (snd (snd (snd ?D)))"
  let ?F = "raw_request (reset (fst (snd ?D))) ''/api/v1/user'' (fst (snd (snd ?D))) GET (snd (snd ?E))"
  have j: "easy_init_ok ?V" by (simp add: example_world_def)
  have d1: "fst ?D = Inr 401" by (simp add: ev rejected_twice_script_def)
  have d2: "document_has_error example_parse (fst (snd ?D)) oauth_auth_failed_response"
    by (simp add: ev rejected_twice_script_def)
  have e1: "fst ?E = Inr True" by (simp add: ev rejected_twice_script_def)
  have f1: "fst ?F = Inr 401" by (simp add: ev rejected_twice_script_def)
  have f2: "document_has_error example_parse (fst (snd ?F)) oauth_auth_failed_response"
    by (simp add: ev rejected_twice_script_def)
  have s: "True \<longrightarrow> ?F = (Inr 401, fst (snd ?F), fst (snd (snd ?F)), snd (snd (snd ?F))) \<and>
             (401::int) \<noteq> 200 \<and>
             document_has_error example_parse (fst (snd ?F)) oauth_auth_failed_response"
    using quad_eqI [OF f1] f2 by simp
  from refresh_failure_invalid_token [OF j quad_eqI [OF d1] _ d2 triple_eqI [OF e1] s]
  have p2: "fst (raw_request_optional_refresh example_parse new_request_state ''/api/v1/user''
          user_params GET True example_client ?V) = Inl InvalidTokenException \<and>
      map req_url (net_log (snd (snd (snd (snd (raw_request_optional_refresh example_parse
          new_request_state ''/api/v1/user'' user_params GET True example_client ?V)))))) =
     [''http://localhost:3000/api/v1/user?access_token=A0'', ''http://localhost:3000/oauth/token'',
      ''http://localhost:3000/api/v1/user?access_token=A0'']"
    by (simp add: ev rejected_twice_script_def)
  from p1 p2 show ?thesis by (simp only:)
qed

text \<open>
  The status decides before the body does: an answer with status 200 is returned as it
  is. Here the first answer is rejected with 401, the refresh succeeds, and the retry is
  answered with the same error document under status 200: the call returns 200 after
  its three requests and raises nothing.
\<close>

theorem retry_sentinel_with_status_200:
  "fst (raw_request_optional_refresh example_parse new_request_state ''/api/v1/user'' user_params GET
          True example_client (example_world sentinel_200_script)) = Inr 200 \<and>
   document_has_error example_parse
     (fst (snd (raw_request_optional_refresh example_parse new_request_state ''/api/v1/user''
          user_params GET True example_client (example_world sentinel_200_script))))
     oauth_auth_failed_response \<and>
   length (net_log (snd (snd (snd (snd (raw_request_optional_refresh example_parse
          new_request_state ''/api/v1/user'' user_params GET True example_client
          (example_world sentinel_200_script))))))) = 3"
  by (simp add: eval_defs sentinel_200_script_def user_params_def)

section \<open>The parameter string and its decoding\<close>

lemma hex_value_hex_digit: "n < 16 \<Longrightarrow> hex_value (hex_digit n) = Some n"
  by (auto simp add: hex_value_def hex_digit_def Let_def)

lemma unreserved_not_percent: "is_unreserved c \<Longrightarrow> c \<noteq> CHR ''%''"
  by (auto simp add: is_unreserved_def Let_def)

lemma of_char_div_16: "(of_char c :: nat) div 16 < 16"
proof -
  have "(of_char c :: nat) < 256" by simp
  then show ?thesis by linarith
qed

lemma percent_decode_escape_char:
  "percent_decode (escape_char c @ rest) = c # percent_decode rest"
  by (simp add: escape_char_def unreserved_not_percent hex_value_hex_digit of_char_div_16)

lemma percent_decode_encode: "percent_decode (percent_encode s) = s"
  by (induction s) (simp_all add: percent_encode_def percent_decode_escape_char)

lemma of_char_hex_digit:
  "n < 16 \<Longrightarrow> (of_char (hex_digit n) :: nat) = (if n < 10 then 48 + n else 55 + n)"
  by (simp add: hex_digit_def)

lemma hex_digit_not_amp:
  assumes "n < 16"
  shows "hex_digit n \<noteq> CHR ''&''"
proof
  assume "hex_digit n = CHR ''&''"
  then have "(of_char (hex_digit n) :: nat) = of_char CHR ''&''" by simp
  with of_char_hex_digit [OF assms] show False by (simp split: if_splits)
qed

lemma escape_char_no_amp: "CHR ''&'' \<notin> set (escape_char c)"
proof (cases "is_unreserved c")
  case True
  then have "c \<noteq> CHR ''&''" by (auto simp add: is_unreserved_def Let_def)
  with True show ?thesis by (simp add: escape_char_def)
next
  case False
  have "(of_char c :: nat) mod 16 < 16" by simp
  with False hex_digit_not_amp [OF of_char_div_16 [of c]] hex_digit_not_amp [of "of_char c mod 16"]
  show ?thesis by (auto simp add: escape_char_def)
qed

lemma percent_encode_no_amp: "CHR ''&'' \<notin> set (percent_encode v)"
  using escape_char_no_amp by (auto simp add: percent_encode_def)

lemma split_on_no_sep: "d \<notin> set a \<Longrightarrow> split_on d a = [a]"
  by (induction a) auto

lemma split_on_sep: "d \<notin> set a \<Longrightarrow> split_on d (a @ d # rest) = a # split_on d rest"
  by (induction a) auto

lemma spec_decode_pair_encoded:
  assumes "CHR ''='' \<notin> set k"
  shows "spec_decode_pair (k @ ''='' @ percent_encode v) = (k, v)"
proof -
  have "takeWhile (\<lambda>c. c \<noteq> CHR ''='') (k @ CHR ''='' # percent_encode v) = k"
    using assms by (induction k) auto
  moreover have "dropWhile (\<lambda>c. c \<noteq> CHR ''='') (k @ CHR ''='' # percent_encode v) =
                 CHR ''='' # percent_encode v"
    using assms by (induction k) auto
  ultimately show ?thesis by (simp add: spec_decode_pair_def percent_decode_encode)
qed

lemma split_param_string:
  assumes "list_all plain_key ps"
  shows "map spec_decode_pair (split_on CHR ''&'' (param_string ps)) =
           (if ps = [] then [([], [])] else map (\<lambda>p. (key p, val p)) ps)"
  using assms
proof (induction ps)
  case Nil
  show ?case by (simp add: spec_decode_pair_def)
next
  case (Cons p ps)
  from Cons.prems have p: "plain_key p" and rest: "list_all plain_key ps" by simp_all
  from p have pk: "CHR ''&'' \<notin> set (key p)" "CHR ''='' \<notin> set (key p)"
    by (simp_all add: plain_key_def)
  have piece: "CHR ''&'' \<notin> set (key p @ ''='' @ percent_encode (val p))"
    using pk(1) percent_encode_no_amp by simp
  show ?case
  proof (cases "ps = []")
    case True
    then show ?thesis
      using split_on_no_sep [OF piece] spec_decode_pair_encoded [OF pk(2)] by simp
  next
    case False
    have "param_string (p # ps) = (key p @ ''='' @ percent_encode (val p)) @ CHR ''&'' # param_string ps"
      using False by simp
    then have "split_on CHR ''&'' (param_string (p # ps)) =
                 (key p @ ''='' @ percent_encode (val p)) # split_on CHR ''&'' (param_string ps)"
      using split_on_sep [OF piece] by simp
    then show ?thesis
      using Cons.IH [OF rest] False spec_decode_pair_encoded [OF pk(2)] by simp
  qed
qed

lemma param_string_empty: "(param_string ps = []) = (ps = [])"
  by (cases ps) simp_all

lemmas codec_defs = codec_params_def param_def plain_key_def percent_encode_def escape_char_def
  is_unreserved_def hex_digit_def hex_value_def spec_decode_params_def spec_decode_pair_def
  curl_easy_escape_def buffer_text_def example_world_def char_of_eq_iff

text \<open>
  Claim C7, as amended. For every ordered parameter list \<open>construct_params\<close> produces
  the string \<open>k1=v1&k2=v2&...\<close> in which every value is percent-encoded on its own and
  every key is copied as it stands. If no key holds \<open>&\<close> or \<open>=\<close>, decoding that string
  gives back the keys and values in order.
\<close>

theorem construct_params_round_trip:
  "fst (construct_params ps w) = param_string ps \<and>
   (list_all plain_key ps \<longrightarrow>
      spec_decode_params (fst (construct_params ps w)) = map (\<lambda>p. (key p, val p)) ps)"
proof -
  obtain s ps1 w1 where cp: "construct_params ps w = (s, ps1, w1)" by (metis prod_cases3)
  from construct_params_string [OF cp] have s: "s = param_string ps" by simp
  show ?thesis
    using cp s split_param_string [of ps]
    by (simp add: spec_decode_params_def param_string_empty)
qed

theorem construct_params_round_trip_witness:
  "list_all plain_key codec_params \<and>
   fst (construct_params codec_params (example_world [])) = ''client_id=a%20b&code=x%26y%3Dz'' \<and>
   spec_decode_params (fst (construct_params codec_params (example_world []))) =
     [(''client_id'', ''a b''), (''code'', ''x&y=z'')]"
  using construct_params_round_trip [of codec_params "example_world []"]
  by (simp add: codec_defs)

text \<open>
  Without the condition on the keys no decoder can give the pairs back: the one
  parameter with key \<open>a=&\<close> and an empty value, and the two parameters with keys \<open>a\<close> and
  the empty key, both with empty values, produce the same string.
\<close>

theorem keys_are_not_escaped:
  "fst (construct_params [param ''a=&'' []] (example_world [])) = ''a=&='' \<and>
   fst (construct_params [param ''a'' [], param [] []] (example_world [])) = ''a=&='' \<and>
   spec_decode_params (fst (construct_params [param ''a=&'' []] (example_world []))) =
     [(''a'', []), ([], [])]"
  by (simp add: codec_defs)

section \<open>Releasing the escaped buffers\<close>

text \<open>
  \<open>construct_params\<close> allocates one buffer for each parameter, numbered from \<open>next_buf\<close>
  on, and \<open>free_params\<close> releases the buffers the parameters point to. When
  \<open>raw_request\<close> returns a status code, whatever the code, each buffer of the request has
  been released exactly once and none is live (\<open>raw_request_releases\<close>). When the
  transport fails, \<open>err_assert\<close> ends the call before \<open>free_params\<close> is reached: nothing
  has been released and every buffer of the request is still live
  (\<open>raw_request_leaks\<close>).
\<close>

lemma construct_params_heap:
  "construct_params ps w = (s, ps1, w1) \<Longrightarrow>
     next_buf w1 = next_buf w + length ps \<and>
     map escaped_value ps1 = map Some [next_buf w ..< next_buf w + length ps] \<and>
     (\<forall>a. bufs w1 a =
        (if next_buf w \<le> a \<and> a < next_buf w + length ps
           then Some (percent_encode (val (ps ! (a - next_buf w)))) else bufs w a))"
proof (induction ps arbitrary: w s ps1 w1)
  case Nil
  then show ?case by auto
next
  case (Cons p ps)
  let ?w0 = "snd (curl_easy_escape (val p) w)"
  obtain rest ps2 w2 where r: "construct_params ps ?w0 = (rest, ps2, w2)"
    by (metis prod_cases3)
  have w0: "next_buf ?w0 = Suc (next_buf w)"
    "bufs ?w0 = (bufs w)(next_buf w := Some (percent_encode (val p)))"
    by (simp_all add: curl_easy_escape_def)
  from Cons.prems r have e: "ps1 = p\<lparr>escaped_value := Some (next_buf w)\<rparr> # ps2" "w1 = w2"
    by (auto simp: curl_easy_escape_def)
  note ih = Cons.IH [OF r, unfolded w0]
  have upt: "[next_buf w ..< next_buf w + length (p # ps)] =
             next_buf w # [Suc (next_buf w) ..< Suc (next_buf w) + length ps]"
    by (simp add: upt_rec)
  have "\<forall>a. bufs w1 a =
        (if next_buf w \<le> a \<and> a < next_buf w + length (p # ps)
           then Some (percent_encode (val ((p # ps) ! (a - next_buf w)))) else bufs w a)"
  proof
    fix a
    show "bufs w1 a =
        (if next_buf w \<le> a \<and> a < next_buf w + length (p # ps)
           then Some (percent_encode (val ((p # ps) ! (a - next_buf w)))) else bufs w a)"
    proof (cases "a = next_buf w")
      case True
      with ih e show ?thesis by simp
    next
      case False
      with ih e show ?thesis by (auto simp: nth_Cons' Suc_diff_le)
    qed
  qed
  with ih e upt show ?case by simp
qed

lemma free_params_heap:
  "map escaped_value ps = map Some as \<Longrightarrow>
     freed (free_params ps w) = freed w @ as \<and>
     (\<forall>a. bufs (free_params ps w) a = (if a \<in> set as then None else bufs w a))"
proof (induction ps arbitrary: as w)
  case Nil
  then show ?case by simp
next
  case (Cons p ps)
  from Cons.prems obtain a as1 where as: "as = a # as1" "escaped_value p = Some a"
    "map escaped_value ps = map Some as1" by (cases as) auto
  from Cons.IH [OF as(3), of "curl_free (Some a) w"] as show ?case
    by (auto simp: curl_free_def)
qed

lemma raw_request_releases:
  assumes "raw_request r path ps m w = (Inr rc, r1, ps1, w1)"
  shows "freed w1 = freed w @ [next_buf w ..< next_buf w + length ps] \<and>
         next_buf w1 = next_buf w + length ps \<and>
         (\<forall>a. next_buf w \<le> a \<and> a < next_buf w + length ps \<longrightarrow> bufs w1 a = None)"
proof -
  from assms have ok: "easy_init_ok w" by (auto simp: raw_request_unfold split: if_splits)
  obtain s ps2 w2 where cp: "construct_params ps w = (s, ps2, w2)" by (metis prod_cases3)
  obtain cerr code r3 w3 where pf: "curl_easy_perform (request_of path ps m) r w2 = ((cerr, code), r3, w3)"
    by (metis surj_pair)
  from assms ok cp pf have w1: "w1 = free_params ps2 w3"
    by (auto simp: raw_request_unfold split: option.splits)
  note h = construct_params_heap [OF cp] and f = construct_params_frame [OF cp]
    and p = curl_easy_perform_frame [OF pf]
  from h have ev: "map escaped_value ps2 = map Some [next_buf w ..< next_buf w + length ps]" by simp
  note fr = free_params_heap [OF ev, of w3] and ff = free_params_frame [of ps2 w3]
  from w1 h f p fr ff show ?thesis by auto
qed

lemma raw_request_leaks:
  assumes "raw_request r path ps m w = (Inl e, r1, ps1, w1)" and "easy_init_ok w"
  shows "freed w1 = freed w \<and>
         (\<forall>a. next_buf w \<le> a \<and> a < next_buf w + length ps \<longrightarrow>
              bufs w1 a = Some (percent_encode (val (ps ! (a - next_buf w)))))"
proof -
  obtain s ps2 w2 where cp: "construct_params ps w = (s, ps2, w2)" by (metis prod_cases3)
  obtain cerr code r3 w3 where pf: "curl_easy_perform (request_of path ps m) r w2 = ((cerr, code), r3, w3)"
    by (metis surj_pair)
  from assms cp pf have w1: "w1 = w3"
    by (auto simp: raw_request_unfold split: option.splits)
  note h = construct_params_heap [OF cp] and f = construct_params_frame [OF cp]
    and p = curl_easy_perform_frame [OF pf]
  from w1 h f p show ?thesis by auto
qed

lemma completed_transfer_releases_example:
  "fst (raw_request new_request_state device_flow_init_path [param ''client_id'' ''id''] GET
          (example_world [json_reply 500 ''{}''])) = Inr 500 \<and>
   bufs (snd (snd (snd (raw_request new_request_state device_flow_init_path
          [param ''client_id'' ''id''] GET (example_world [json_reply 500 ''{}'']))))) 0 = None \<and>
   freed (snd (snd (snd (raw_request new_request_state device_flow_init_path
          [param ''client_id'' ''id''] GET (example_world [json_reply 500 ''{}'']))))) = [0]"
  by (simp add: eval_defs device_flow_init_path_def percent_encode_def escape_char_def
        is_unreserved_def)

text \<open>
  Claim C8 asks that each escaped buffer be released exactly once on every exit path of
  a request. On the path of a transport failure the code does not do so: with the
  server unreachable, the request for the device-flow start ends with the fatal error
  of \<open>err_assert\<close>, the buffer holding the escaped client id is still allocated, and no
  buffer has been released.
\<close>

theorem transport_failure_leaks_buffers:
  "fst (raw_request new_request_state device_flow_init_path [param ''client_id'' ''id''] GET
          (example_world [])) = Inl (Fatal ''Couldn't connect to server'') \<and>
   bufs (snd (snd (snd (raw_request new_request_state device_flow_init_path
          [param ''client_id'' ''id''] GET (example_world []))))) 0 = Some ''id'' \<and>
   freed (snd (snd (snd (raw_request new_request_state device_flow_init_path
          [param ''client_id'' ''id''] GET (example_world []))))) = []"
  by (simp add: eval_defs device_flow_init_path_def percent_encode_def escape_char_def
        is_unreserved_def)

section \<open>Downloading an attachment\<close>

lemma deliver_headers_no_disposition:
  "list_all no_disposition hs \<Longrightarrow> deliver_headers hs r w = (r, w)"
  by (induction hs) (simp_all add: header_callback_def no_disposition_def)

lemma header_callback_handout:
  assumes "download_dir r \<noteq> []" and "\<not> f_open (file_output r)"
      and "can_open w (download_dir r @ ''/handout.pdf'')"
  shows "header_callback (handout_header @ ending) r w =
           (r\<lparr>is_download := True, suggested_filename := ''handout.pdf'',
              file_output := (file_output r)\<lparr>f_open := True,
                f_path := download_dir r @ ''/handout.pdf'', f_fail := False\<rparr>\<rparr>,
            w\<lparr>files := (files w)(download_dir r @ ''/handout.pdf'' := Some [])\<rparr>)"
  using assms
  by (simp add: header_callback_def handout_header_def consider_download_def str_find_def
        substr_def ofstream_open_def Let_def)

lemma deliver_body_download:
  assumes "is_download r" and "f_open (file_output r)" and "\<not> f_fail (file_output r)"
      and "files w (f_path (file_output r)) = Some old"
  shows "deliver_body ds r w =
           (r, w\<lparr>files := (files w)(f_path (file_output r) := Some (old @ concat ds))\<rparr>)"
  using assms
proof (induction ds arbitrary: w old)
  case Nil
  then have "(files w)(f_path (file_output r) := Some old) = files w" by auto
  then show ?case by simp
next
  case (Cons d ds)
  let ?w1 = "w\<lparr>files := (files w)(f_path (file_output r) := Some (old @ d))\<rparr>"
  have wc: "write_callback d r w = (r, ?w1)"
    using Cons.prems by (simp add: write_callback_def ofstream_write_def)
  have f1: "files ?w1 (f_path (file_output r)) = Some (old @ d)" by simp
  have "?w1\<lparr>files := (files ?w1)(f_path (file_output r) := Some ((old @ d) @ concat ds))\<rparr> =
        w\<lparr>files := (files w)(f_path (file_output r) := Some (old @ concat (d # ds)))\<rparr>"
    by simp
  with Cons.IH [OF Cons.prems(1-3) f1] wc show ?case by (simp only: deliver_body.simps prod.case)
qed

lemma deliver_headers_append:
  "deliver_headers (xs @ ys) r w =
     (case deliver_headers xs r w of (r1, w1) \<Rightarrow> deliver_headers ys r1 w1)"
  by (induction xs arbitrary: r w) (simp_all split: prod.splits)

lemma curl_easy_perform_handout:
  assumes "transfers w = t # ts"
      and "header_lines t = before @ [handout_header @ ending] @ after"
      and "list_all no_disposition before" and "list_all no_disposition after"
      and "dir \<noteq> []" and "can_open w (dir @ ''/handout.pdf'')"
  shows "\<exists>r1 w1. curl_easy_perform req (new_download_state dir name_hint) w =
                   ((curl_error t, status t), r1, w1) \<and>
                 is_download r1 \<and> string_output r1 = [] \<and> suggested_filename r1 = ''handout.pdf'' \<and>
                 files w1 (dir @ ''/handout.pdf'') = Some (concat (body_chunks t))"
proof -
  let ?r0 = "new_download_state dir name_hint"
  let ?w0 = "w\<lparr>net_log := net_log w @ [req\<lparr>req_time := clock w\<rparr>], transfers := ts\<rparr>"
  let ?p = "dir @ ''/handout.pdf''"
  let ?r1 = "?r0\<lparr>is_download := True, suggested_filename := ''handout.pdf'',
              file_output := (file_output ?r0)\<lparr>f_open := True, f_path := ?p, f_fail := False\<rparr>\<rparr>"
  let ?w1 = "?w0\<lparr>files := (files ?w0)(?p := Some [])\<rparr>"
  have d: "download_dir ?r0 = dir" "\<not> f_open (file_output ?r0)"
    by (simp_all add: new_download_state_def closed_ofstream_def)
  have hc: "header_callback (handout_header @ ending) ?r0 ?w0 = (?r1, ?w1)"
    using header_callback_handout [of ?r0 ?w0 ending] d assms(5,6) by simp
  have dh: "deliver_headers (header_lines t) ?r0 ?w0 = (?r1, ?w1)"
    using assms(3,4) hc
    by (simp add: assms(2) deliver_headers_append deliver_headers_no_disposition)
  have db: "deliver_body (body_chunks t) ?r1 ?w1 =
              (?r1, ?w1\<lparr>files := (files ?w1)(?p := Some ([] @ concat (body_chunks t)))\<rparr>)"
    using deliver_body_download [of ?r1 ?w1 "[]" "body_chunks t"] by simp
  show ?thesis
    using assms(1) dh db
    by (simp add: curl_easy_perform_def new_download_state_def)
qed

lemma raw_request_handout:
  assumes "easy_init_ok w" and "transfers w = t # ts" and "curl_error t = None"
      and "header_lines t = before @ [handout_header @ ending] @ after"
      and "list_all no_disposition before" and "list_all no_disposition after"
      and "dir \<noteq> []" and "can_open w (dir @ ''/handout.pdf'')"
  shows "\<exists>r1 ps1 w1. raw_request (new_download_state dir name_hint) path params meth w =
                      (Inr (status t), r1, ps1, w1) \<and>
                    is_download r1 \<and> string_output r1 = [] \<and>
                    suggested_filename r1 = ''handout.pdf'' \<and>
                    files w1 (dir @ ''/handout.pdf'') = Some (concat (body_chunks t)) \<and>
                    net_log w1 = net_log w @ [(request_of path params meth)\<lparr>req_time := clock w\<rparr>]"
proof -
  obtain s ps1 w1 where cp: "construct_params params w = (s, ps1, w1)" by (metis prod_cases3)
  note fr = construct_params_frame [OF cp]
  from fr assms(2,8) have t1: "transfers w1 = t # ts" and o1: "can_open w1 (dir @ ''/handout.pdf'')"
    by simp_all
  from curl_easy_perform_handout [OF t1 assms(4-7) o1, of "request_of path params meth" name_hint]
  obtain r2 w2 where pf: "curl_easy_perform (request_of path params meth)
        (new_download_state dir name_hint) w1 = ((curl_error t, status t), r2, w2)"
    and r2: "is_download r2" "string_output r2 = []" "suggested_filename r2 = ''handout.pdf''"
    and f2: "files w2 (dir @ ''/handout.pdf'') = Some (concat (body_chunks t))" by blast
  note pfr = curl_easy_perform_frame [OF pf]
  have "raw_request (new_download_state dir name_hint) path params meth w =
          (Inr (status t), r2\<lparr>response_code := Some (status t)\<rparr>, ps1, free_params ps1 w2)"
    using assms(1,3) cp pf by (simp add: raw_request_unfold)
  moreover have "files (free_params ps1 w2) (dir @ ''/handout.pdf'') = Some (concat (body_chunks t))"
    using f2 free_params_frame [of ps1 w2] by simp
  moreover have "net_log (free_params ps1 w2) =
                   net_log w @ [(request_of path params meth)\<lparr>req_time := clock w\<rparr>]"
    using pfr fr free_params_frame [of ps1 w2] by simp
  ultimately show ?thesis using r2 by simp
qed

text \<open>
  Claim C9, as amended. Let download mode be on (the target directory is not empty), let the
  response carry the header line \<open>Content-Disposition: attachment;
  filename="handout.pdf"\<close> (with any line ending) as its one \<open>Content-Disposition\<close> line,
  and let the file \<open>handout.pdf\<close> in the target directory be one that can be opened for
  writing. Then the call returns the status of the response after a single request, the
  file holds exactly the bytes of the body, and the string accumulator of the request
  state is empty.
\<close>

theorem download_writes_handout:
  assumes "easy_init_ok w" and "transfers w = t # ts" and "curl_error t = None"
      and "header_lines t = before @ [handout_header @ ending] @ after"
      and "list_all no_disposition before" and "list_all no_disposition after"
      and "dir \<noteq> []" and "can_open w (dir @ ''/handout.pdf'')"
  shows "fst (raw_request_optional_refresh P (new_download_state dir name_hint) path params meth
                refresh c w) = Inr (status t) \<and>
         string_output (fst (snd (raw_request_optional_refresh P (new_download_state dir name_hint)
                path params meth refresh c w))) = [] \<and>
         files (snd (snd (snd (snd (raw_request_optional_refresh P (new_download_state dir name_hint)
                path params meth refresh c w))))) (dir @ ''/handout.pdf'') =
           Some (concat (body_chunks t)) \<and>
         length (net_log (snd (snd (snd (snd (raw_request_optional_refresh P
                (new_download_state dir name_hint) path params meth refresh c w)))))) =
           length (net_log w) + 1 \<and>
         fst (download_request P dir name_hint path params meth refresh c w) = Inr (status t) \<and>
         files (snd (snd (download_request P dir name_hint path params meth refresh c w)))
           (dir @ ''/handout.pdf'') = Some (concat (body_chunks t))"
proof -
  from raw_request_handout [OF assms, of name_hint path params meth]
  obtain r1 ps1 w1 where rq: "raw_request (new_download_state dir name_hint) path params meth w =
                      (Inr (status t), r1, ps1, w1)"
    and r1: "is_download r1" "string_output r1 = []"
    and w1: "files w1 (dir @ ''/handout.pdf'') = Some (concat (body_chunks t))"
      "net_log w1 = net_log w @ [(request_of path params meth)\<lparr>req_time := clock w\<rparr>]"
    by blast
  have nd: "\<not> document_has_error P r1 oauth_auth_failed_response"
    using r1(1) by (simp add: document_has_error_def)
  have run: "raw_request_optional_refresh P (new_download_state dir name_hint) path params meth
               refresh c w = (Inr (status t), r1, ps1, c, w1)"
    using rq nd by (simp add: raw_request_optional_refresh.simps)
  show ?thesis using run r1 w1 by (simp add: download_request_def)
qed

theorem download_writes_handout_witness:
  "fst (download_request example_parse ''/tmp/hw1'' ''handout''
          ''/api/v1/courses/c1/assessments/hw1/handout'' user_params GET True example_client
          (example_world [handout_reply])) = Inr 200 \<and>
   files (snd (snd (download_request example_parse ''/tmp/hw1'' ''handout''
          ''/api/v1/courses/c1/assessments/hw1/handout'' user_params GET True example_client
          (example_world [handout_reply])))) ''/tmp/hw1/handout.pdf'' = Some ''%PDF-1.4 handout'' \<and>
   string_output (fst (snd (raw_request_optional_refresh example_parse
          (new_download_state ''/tmp/hw1'' ''handout'')
          ''/api/v1/courses/c1/assessments/hw1/handout'' user_params GET True example_client
          (example_world [handout_reply])))) = []"
  using download_writes_handout
    [where w = "example_world [handout_reply]" and t = handout_reply and ts = "[]"
       and before = "[''HTTP/1.1 200 OK'' @ crlf]" and ending = crlf
       and after = "[''Content-Type: application/pdf'' @ crlf, crlf]"
       and dir = "''/tmp/hw1''" and P = example_parse and name_hint = "''handout''"
       and path = "''/api/v1/courses/c1/assessments/hw1/handout''" and params = user_params
       and meth = GET and refresh = True and c = example_client]
  by (simp add: example_world_def handout_reply_def no_disposition_def str_find_def crlf_def)

text \<open>
  \<open>header_callback\<close> opens the stream at every header line that mentions
  \<open>Content-Disposition:\<close> and does not look at whether the stream opened. With the
  handout header sent twice, the second \<open>open\<close> finds the stream open and sets its fail
  bit, after which no write reaches the file: the call returns 200 and \<open>handout.pdf\<close> is
  left empty. Where the file cannot be opened for writing the call returns 200 as well,
  and there is no file. In both runs the string accumulator stays empty.
\<close>

theorem download_body_lost:
  "fst (download_request example_parse ''/tmp/hw1'' ''handout''
          ''/api/v1/courses/c1/assessments/hw1/handout'' user_params GET True example_client
          (example_world [repeated_header_reply])) = Inr 200 \<and>
   files (snd (snd (download_request example_parse ''/tmp/hw1'' ''handout''
          ''/api/v1/courses/c1/assessments/hw1/handout'' user_params GET True example_client
          (example_world [repeated_header_reply])))) ''/tmp/hw1/handout.pdf'' = Some [] \<and>
   string_output (fst (snd (raw_request_optional_refresh example_parse
          (new_download_state ''/tmp/hw1'' ''handout'')
          ''/api/v1/courses/c1/assessments/hw1/handout'' user_params GET True example_client
          (example_world [repeated_header_reply])))) = [] \<and>
   fst (download_request example_parse ''/tmp/hw1'' ''handout''
          ''/api/v1/courses/c1/assessments/hw1/handout'' user_params GET True example_client
          (read_only_world [handout_reply])) = Inr 200 \<and>
   files (snd (snd (download_request example_parse ''/tmp/hw1'' ''handout''
          ''/api/v1/courses/c1/assessments/hw1/handout'' user_params GET True example_client
          (read_only_world [handout_reply])))) ''/tmp/hw1/handout.pdf'' = None \<and>
   string_output (fst (snd (raw_request_optional_refresh example_parse
          (new_download_state ''/tmp/hw1'' ''handout'')
          ''/api/v1/courses/c1/assessments/hw1/handout'' user_params GET True example_client
          (read_only_world [handout_reply])))) = []"
  by (simp add: eval_defs download_request_def new_download_state_def closed_ofstream_def
        repeated_header_reply_def handout_reply_def read_only_world_def handout_header_def
        crlf_def user_params_def str_find_def substr_def ofstream_open_def ofstream_write_def
        ofstream_close_def percent_encode_def escape_char_def is_unreserved_def)

end
